theory Spec2Isabelle
  imports Main "HOL-Library.Sublist" "HOL-Library.Monad_Syntax" "HOL-Library.Word"
begin

section \<open>Errors\<close>

text \<open>
  Every error value the program can produce. \<open>CreatePartitions\<close> returns the error of
  \<open>time.Parse\<close> or \<open>errors.New("unsupported partition type")\<close>; \<open>Process\<close> returns
  the error of the collaborator call that failed.
\<close>

datatype error =
    ParseError
  | UnsupportedPartitionType
  | OpenDbError
  | ReadFileError
  | WriteFileError
  | OpenFileError
  | QueryError
  | ScanError
  | SetSheetRowError
  | InsertRowError

section \<open>The time values of the Go library\<close>

text \<open>
  The standard library is not part of the program; its functions are modelled from their
  documented behaviour, under their own names.

  A \<open>time.Time\<close> in UTC with zero nanoseconds, held as its civil fields. The program
  obtains every time from \<open>time.Parse\<close> or \<open>AddDate\<close>, both of which deliver
  normalised fields. The instant a value denotes is \<open>abs_seconds\<close>: the seconds since
  0001-01-01T00:00:00, computed as the library's \<open>Date\<close> does (month overflow carried
  into the year, then days before the year, days before the month, day and clock).
\<close>

record Time =
  year :: int
  month :: int
  day :: int
  hour :: int
  minute :: int
  second :: int

definition isLeap :: "int \<Rightarrow> bool" where
  "isLeap y = (y mod 4 = 0 \<and> (y mod 100 \<noteq> 0 \<or> y mod 400 = 0))"

text \<open>\<open>daysBefore[m]\<close>: days in a non-leap year before month \<open>m + 1\<close>.\<close>

definition daysBefore :: "int list" where
  "daysBefore = [0, 31, 59, 90, 120, 151, 181, 212, 243, 273, 304, 334, 365]"

text \<open>
  \<open>daysIn\<close> of the library is \<open>daysBefore[m] - daysBefore[m-1]\<close>, and 29 for a leap
  February; written by cases here so that it is defined for every integer.
\<close>

definition daysIn :: "int \<Rightarrow> int \<Rightarrow> int" where
  "daysIn m y =
     (if m = 2 then (if isLeap y then 29 else 28)
      else if m = 4 \<or> m = 6 \<or> m = 9 \<or> m = 11 then 30
      else 31)"

text \<open>Days from 0001-01-01 to the first of January of year \<open>y\<close>.\<close>

definition daysSinceEpoch :: "int \<Rightarrow> int" where
  "daysSinceEpoch y =
     365 * (y - 1) + (y - 1) div 4 - (y - 1) div 100 + (y - 1) div 400"

definition abs_days :: "int \<Rightarrow> int \<Rightarrow> int \<Rightarrow> int" where
  "abs_days y m d =
     (let m0 = (m - 1) mod 12;
          y' = y + (m - 1) div 12
      in daysSinceEpoch y' + daysBefore ! nat m0
         + (if isLeap y' \<and> 3 \<le> m0 + 1 then 1 else 0)
         + (d - 1))"

definition abs_of :: "int \<Rightarrow> int \<Rightarrow> int \<Rightarrow> int \<Rightarrow> int \<Rightarrow> int \<Rightarrow> int" where
  "abs_of y m d h mi s = abs_days y m d * 86400 + h * 3600 + mi * 60 + s"

definition abs_seconds :: "Time \<Rightarrow> int" where
  "abs_seconds t = abs_of (year t) (month t) (day t) (hour t) (minute t) (second t)"

text \<open>\<open>t.Before(u)\<close>: the instant \<open>t\<close> is before the instant \<open>u\<close>.\<close>

definition Before :: "Time \<Rightarrow> Time \<Rightarrow> bool" where
  "Before t u = (abs_seconds t < abs_seconds u)"

text \<open>
  The day normalisation of \<open>Date\<close>: a day outside the month moves into the neighbouring
  month, repeatedly, until it lies within its month.
\<close>

definition prev_month :: "int \<Rightarrow> int \<Rightarrow> int \<times> int" where
  "prev_month y m = (if m = 1 then (y - 1, 12) else (y, m - 1))"

definition next_month :: "int \<Rightarrow> int \<Rightarrow> int \<times> int" where
  "next_month y m = (if m = 12 then (y + 1, 1) else (y, m + 1))"

function norm_day :: "int \<Rightarrow> int \<Rightarrow> int \<Rightarrow> int \<times> int \<times> int" where
  "norm_day y m d =
     (if d < 1 then
        (case prev_month y m of (y', m') \<Rightarrow> norm_day y' m' (d + daysIn m' y'))
      else if daysIn m y < d then
        (case next_month y m of (y', m') \<Rightarrow> norm_day y' m' (d - daysIn m y))
      else (y, m, d))"
  by pat_completeness auto
termination
  by (relation "measure (\<lambda>(y, m, d). if d < 1 then nat (32 - d) else nat d)")
     (auto simp: daysIn_def)

declare norm_day.simps [simp del]

text \<open>
  \<open>time.Date(year, month, day, hour, min, sec, 0, UTC)\<close>: seconds carry into minutes,
  minutes into hours, hours into days, months into years, and the day is normalised.
\<close>

definition Date :: "int \<Rightarrow> int \<Rightarrow> int \<Rightarrow> int \<Rightarrow> int \<Rightarrow> int \<Rightarrow> Time" where
  "Date y m d h mi s =
     (let mi1 = mi + s div 60; s' = s mod 60;
          h1 = h + mi1 div 60; mi' = mi1 mod 60;
          d1 = d + h1 div 24; h' = h1 mod 24;
          y1 = y + (m - 1) div 12; m1 = (m - 1) mod 12 + 1
      in case norm_day y1 m1 d1 of (y', m', d') \<Rightarrow>
           \<lparr>year = y', month = m', day = d', hour = h', minute = mi', second = s'\<rparr>)"

text \<open>\<open>t.AddDate(years, months, days)\<close>.\<close>

definition AddDate :: "Time \<Rightarrow> int \<Rightarrow> int \<Rightarrow> int \<Rightarrow> Time" where
  "AddDate t years months days =
     Date (year t + years) (month t + months) (day t + days) (hour t) (minute t) (second t)"

text \<open>\<open>t.Date()\<close>: the year, month and day of a time.\<close>

definition Time_Date :: "Time \<Rightarrow> int \<times> int \<times> int" where
  "Time_Date t = (year t, month t, day t)"

subsection \<open>Calendar arithmetic\<close>

text \<open>
  Normalisation keeps the instant, adding a day adds 86400 seconds, adding a month adds the
  length of the current month and adding a year adds at least 365 days.
\<close>

lemma div_step:
  fixes y k :: int
  assumes k: "1 < k"
  shows "y div k = (y - 1) div k + (if y mod k = 0 then 1 else 0)"
proof (cases "y mod k = 0")
  case True
  have "y - 1 = (y div k - 1) * k + (k - 1)"
    using True by (simp add: algebra_simps) (metis True mult_div_mod_eq add.right_neutral)
  then have "(y - 1) div k = ((y div k - 1) * k + (k - 1)) div k"
    by (rule arg_cong)
  also have "\<dots> = y div k - 1"
    using k by (simp add: div_pos_pos_trivial)
  finally show ?thesis using True by simp
next
  case False
  have r: "0 \<le> y mod k" "y mod k < k" using k by simp_all
  have "y - 1 = (y div k) * k + (y mod k - 1)"
    by (simp add: algebra_simps)
  then have "(y - 1) div k = ((y div k) * k + (y mod k - 1)) div k"
    by (rule arg_cong)
  also have "\<dots> = y div k"
    using k r False by (simp add: div_pos_pos_trivial)
  finally show ?thesis using False by simp
qed

lemma leap_count_step:
  fixes a b c a' b' c' :: int and p q r :: bool
  assumes "a = a' + (if p then 1 else 0)" "b = b' + (if q then 1 else 0)"
    "c = c' + (if r then 1 else 0)" "q \<Longrightarrow> p" "r \<Longrightarrow> q"
  shows "a - b + c = a' - b' + c' + (if p \<and> (\<not> q \<or> r) then 1 else 0)"
  using assms by (cases p; cases q; cases r) simp_all

lemma daysSinceEpoch_step:
  "daysSinceEpoch (y + 1) = daysSinceEpoch y + 365 + (if isLeap y then 1 else 0)"
proof -
  have m4: "y mod 100 = 0 \<Longrightarrow> y mod 4 = 0"
    using mod_mod_cancel [of 4 100 y] by simp
  have m100: "y mod 400 = 0 \<Longrightarrow> y mod 100 = 0"
    using mod_mod_cancel [of 100 400 y] by simp
  have d4: "y div 4 = (y - 1) div 4 + (if y mod 4 = 0 then 1 else 0)"
    by (rule div_step) simp
  have d100: "y div 100 = (y - 1) div 100 + (if y mod 100 = 0 then 1 else 0)"
    by (rule div_step) simp
  have d400: "y div 400 = (y - 1) div 400 + (if y mod 400 = 0 then 1 else 0)"
    by (rule div_step) simp
  have "y div 4 - y div 100 + y div 400
      = (y - 1) div 4 - (y - 1) div 100 + (y - 1) div 400 + (if isLeap y then 1 else 0)"
    unfolding isLeap_def by (rule leap_count_step [OF d4 d100 d400 m4 m100])
  then show ?thesis
    unfolding daysSinceEpoch_def by simp
qed

lemma month_cases:
  "1 \<le> m \<Longrightarrow> m \<le> 12 \<Longrightarrow>
   m = 1 \<or> m = 2 \<or> m = 3 \<or> m = 4 \<or> m = 5 \<or> m = 6 \<or> m = 7 \<or> m = 8 \<or> m = 9 \<or> m = 10
   \<or> m = 11 \<or> m = (12::int)"
  by arith

lemma abs_days_valid_month:
  "1 \<le> m \<Longrightarrow> m \<le> 12 \<Longrightarrow>
   abs_days y m d = daysSinceEpoch y + daysBefore ! nat (m - 1)
      + (if isLeap y \<and> 3 \<le> m then 1 else 0) + (d - 1)"
  by (simp add: abs_days_def Let_def)

lemma abs_days_next_month:
  assumes "1 \<le> m" "m \<le> 12"
  shows "abs_days (fst (next_month y m)) (snd (next_month y m)) d = abs_days y m d + daysIn m y"
  using month_cases [OF assms]
  by (elim disjE) (simp_all add: abs_days_valid_month next_month_def daysIn_def daysBefore_def
      daysSinceEpoch_step)

lemma abs_days_prev_month:
  assumes "1 \<le> m" "m \<le> 12"
  shows "abs_days (fst (prev_month y m)) (snd (prev_month y m)) d
       = abs_days y m d - daysIn (snd (prev_month y m)) (fst (prev_month y m))"
  using month_cases [OF assms] daysSinceEpoch_step [of "y - 1"]
  by (elim disjE) (simp_all add: abs_days_valid_month prev_month_def daysIn_def daysBefore_def)

lemma next_month_range:
  "1 \<le> m \<Longrightarrow> m \<le> 12 \<Longrightarrow> 1 \<le> snd (next_month y m) \<and> snd (next_month y m) \<le> 12"
  by (simp add: next_month_def)

lemma prev_month_range:
  "1 \<le> m \<Longrightarrow> m \<le> 12 \<Longrightarrow> 1 \<le> snd (prev_month y m) \<and> snd (prev_month y m) \<le> 12"
  by (simp add: prev_month_def)

lemma norm_day_sound:
  "1 \<le> m \<Longrightarrow> m \<le> 12 \<Longrightarrow> norm_day y m d = (y', m', d') \<Longrightarrow>
   abs_days y' m' d' = abs_days y m d \<and> 1 \<le> m' \<and> m' \<le> 12 \<and> 1 \<le> d' \<and> d' \<le> daysIn m' y'"
proof (induction y m d rule: norm_day.induct)
  case (1 y m d)
  show ?case
  proof (cases "d < 1")
    case True
    obtain py pm where p: "prev_month y m = (py, pm)" by force
    have r: "1 \<le> pm" "pm \<le> 12"
      using prev_month_range [of m y] "1.prems" p by simp_all
    have n: "norm_day py pm (d + daysIn pm py) = (y', m', d')"
      using "1.prems"(3) True p by (subst (asm) norm_day.simps) simp
    have "abs_days py pm (d + daysIn pm py) = abs_days y m d"
      using abs_days_prev_month [of m y "d + daysIn pm py"] "1.prems" p
      by (simp add: abs_days_valid_month r)
    with "1.IH"(1) [OF True p [symmetric] r n] show ?thesis by simp
  next
    case False
    show ?thesis
    proof (cases "daysIn m y < d")
      case True
      obtain ny nm where p: "next_month y m = (ny, nm)" by force
      have r: "1 \<le> nm" "nm \<le> 12"
        using next_month_range [of m y] "1.prems" p by simp_all
      have n: "norm_day ny nm (d - daysIn m y) = (y', m', d')"
        using "1.prems"(3) True False p by (subst (asm) norm_day.simps) simp
      have "abs_days ny nm (d - daysIn m y) = abs_days y m d"
        using abs_days_next_month [of m y "d - daysIn m y"] "1.prems" p
        by (simp add: abs_days_valid_month r)
      with "1.IH"(2) [OF False True p [symmetric] r n] show ?thesis by simp
    next
      case nd: False
      have "norm_day y m d = (y, m, d)"
        using False nd by (subst norm_day.simps) simp
      with "1.prems" False nd show ?thesis by simp
    qed
  qed
qed

lemma abs_days_add: "abs_days y m (d + k) = abs_days y m d + k"
  by (simp add: abs_days_def Let_def)

lemma abs_days_norm_month: "abs_days (y + (m - 1) div 12) ((m - 1) mod 12 + 1) d = abs_days y m d"
  by (simp add: abs_days_def Let_def)

lemma clock_carry:
  fixes h mi s :: int
  shows "((h + (mi + s div 60) div 60) div 24) * 86400 + ((h + (mi + s div 60) div 60) mod 24) * 3600
       + ((mi + s div 60) mod 60) * 60 + s mod 60 = h * 3600 + mi * 60 + s"
proof -
  define mi1 where "mi1 = mi + s div 60"
  define h1 where "h1 = h + mi1 div 60"
  have a: "s = 60 * (s div 60) + s mod 60" by simp
  have b: "mi1 = 60 * (mi1 div 60) + mi1 mod 60" by simp
  have c: "h1 = 24 * (h1 div 24) + h1 mod 24" by simp
  have "(h1 div 24) * 86400 + (h1 mod 24) * 3600 + (mi1 mod 60) * 60 + s mod 60
      = h * 3600 + mi * 60 + s"
    using a b c mi1_def h1_def by linarith
  then show ?thesis by (simp add: mi1_def h1_def)
qed

lemma abs_Date: "abs_seconds (Date y m d h mi s) = abs_of y m d h mi s"
proof -
  define d1 where "d1 = d + (h + (mi + s div 60) div 60) div 24"
  define y1 where "y1 = y + (m - 1) div 12"
  define m1 where "m1 = (m - 1) mod 12 + 1"
  obtain y' m' d' where n: "norm_day y1 m1 d1 = (y', m', d')"
    by (cases "norm_day y1 m1 d1") auto
  have r: "1 \<le> m1" "m1 \<le> 12"
    by (simp_all add: m1_def) 
  have "abs_days y' m' d' = abs_days y1 m1 d1"
    using norm_day_sound [OF r n] by simp
  also have "\<dots> = abs_days y m d + (h + (mi + s div 60) div 60) div 24"
    by (simp add: y1_def m1_def d1_def abs_days_norm_month abs_days_add)
  finally have e: "abs_days y' m' d' = abs_days y m d + (h + (mi + s div 60) div 60) div 24" .
  have "abs_seconds (Date y m d h mi s)
      = abs_days y' m' d' * 86400 + ((h + (mi + s div 60) div 60) mod 24) * 3600
       + ((mi + s div 60) mod 60) * 60 + s mod 60"
    using n by (simp add: Date_def Let_def abs_seconds_def abs_of_def y1_def m1_def d1_def)
  also have "\<dots> = abs_days y m d * 86400 + h * 3600 + mi * 60 + s"
    unfolding e using clock_carry [of h mi s] by (simp add: algebra_simps)
  finally show ?thesis by (simp add: abs_of_def)
qed

lemma mod12_step_aux:
  fixes m q r q' r' :: int
  assumes "m = 12 * q + r" "m - 1 = 12 * q' + r'"
  shows "q = q' + 1 \<Longrightarrow> r' = r + 11" "q = q' \<Longrightarrow> r' = r - 1"
  using assms by linarith+

lemma mod12_step:
  fixes m :: int
  shows "(m - 1) mod 12 = (if m mod 12 = 0 then 11 else m mod 12 - 1)"
proof -
  have a: "m = 12 * (m div 12) + m mod 12" by simp
  have b: "m - 1 = 12 * ((m - 1) div 12) + (m - 1) mod 12" by simp
  have c: "m div 12 = (m - 1) div 12 + (if m mod 12 = 0 then 1 else 0)"
    by (rule div_step) simp
  show ?thesis
  proof (cases "m mod 12 = 0")
    case True
    then have "m div 12 = (m - 1) div 12 + 1" using c by simp
    from mod12_step_aux(1) [OF a b this] True show ?thesis by simp
  next
    case False
    then have "m div 12 = (m - 1) div 12" using c by simp
    from mod12_step_aux(2) [OF a b this] False show ?thesis by simp
  qed
qed

lemma abs_days_month_step:
  "abs_days y (m + 1) d = abs_days y m d + daysIn ((m - 1) mod 12 + 1) (y + (m - 1) div 12)"
proof -
  define y1 where "y1 = y + (m - 1) div 12"
  define m1 where "m1 = (m - 1) mod 12 + 1"
  have r: "1 \<le> m1" "m1 \<le> 12"
    by (simp_all add: m1_def)
  have nm: "abs_days y (m + 1) d = abs_days (fst (next_month y1 m1)) (snd (next_month y1 m1)) d"
  proof (cases "m mod 12 = 0")
    case True
    then have "m1 = 12" "m div 12 = (m - 1) div 12 + 1"
      using div_step [of 12 m] mod12_step [of m] by (simp_all add: m1_def)
    with True show ?thesis
      by (simp add: next_month_def abs_days_def Let_def y1_def add.assoc)
  next
    case False
    then have "m1 = m mod 12" "m div 12 = (m - 1) div 12"
      using div_step [of 12 m] mod12_step [of m] by (simp_all add: m1_def)
    moreover have "m mod 12 \<noteq> 12"
      using pos_mod_bound [of 12 m] by linarith
    ultimately show ?thesis using False
      by (simp add: next_month_def abs_days_def Let_def y1_def)
  qed
  have "abs_days y m d = abs_days y1 m1 d"
    by (simp add: y1_def m1_def abs_days_norm_month)
  with nm abs_days_next_month [OF r, of y1 d] show ?thesis
    by (simp add: y1_def m1_def)
qed

lemma daysIn_bounds: "28 \<le> daysIn m y" "daysIn m y \<le> 31"
  by (simp_all add: daysIn_def)

lemma abs_days_year_step: "abs_days y m d + 365 \<le> abs_days (y + 1) m d"
proof -
  have "y + 1 + (m - 1) div 12 = (y + (m - 1) div 12) + 1" by simp
  then have "daysSinceEpoch (y + 1 + (m - 1) div 12) = daysSinceEpoch (y + (m - 1) div 12) + 365
       + (if isLeap (y + (m - 1) div 12) then 1 else 0)"
    by (simp only: daysSinceEpoch_step)
  then show ?thesis
    by (simp add: abs_days_def Let_def)
qed

lemma AddDate_day: "abs_seconds (AddDate t 0 0 1) = abs_seconds t + 86400"
  unfolding AddDate_def abs_Date by (simp add: abs_of_def abs_days_add abs_seconds_def)

lemma AddDate_month:
  "abs_seconds (AddDate t 0 1 0) = abs_seconds t
     + 86400 * daysIn ((month t - 1) mod 12 + 1) (year t + (month t - 1) div 12)"
  unfolding AddDate_def abs_Date by (simp add: abs_of_def abs_days_month_step abs_seconds_def)

lemma AddDate_year: "abs_seconds t + 86400 * 365 \<le> abs_seconds (AddDate t 1 0 0)"
  unfolding AddDate_def abs_Date
  using abs_days_year_step [of "year t" "month t" "day t"]
  by (simp add: abs_of_def abs_seconds_def)

section \<open>Parsing the layout \<open>2006-01-02T15:04:05\<close>\<close>

text \<open>
  \<open>time.Parse\<close> for the one layout the program uses: a four-digit year, two-digit month
  and day, an hour of one or two digits, two-digit minute and second, separated by the
  literals of the layout; the month, hour, minute and second are range-checked while
  scanning, the day against the length of its month at the end. The library also accepts
  a fractional second at the very end of the value; the program only parses values ending
  in \<open>T00:00:00\<close> or \<open>T23:59:59\<close>, for which a fraction is followed by more text
  and the parse fails, so here every remainder after the seconds is an error.
\<close>

definition isDigit :: "char \<Rightarrow> bool" where
  "isDigit c = (48 \<le> (of_char c :: nat) \<and> (of_char c :: nat) \<le> 57)"

definition digitVal :: "char \<Rightarrow> int" where
  "digitVal c = int (of_char c) - 48"

fun getnum :: "string \<Rightarrow> bool \<Rightarrow> (int \<times> string) option" where
  "getnum [] fixed = None"
| "getnum [a] fixed =
     (if \<not> isDigit a then None else if fixed then None else Some (digitVal a, []))"
| "getnum (a # b # rest) fixed =
     (if \<not> isDigit a then None
      else if \<not> isDigit b then (if fixed then None else Some (digitVal a, b # rest))
      else Some (digitVal a * 10 + digitVal b, rest))"

fun getyear :: "string \<Rightarrow> (int \<times> string) option" where
  "getyear (a # b # c # d # rest) =
     (if isDigit a \<and> isDigit b \<and> isDigit c \<and> isDigit d
      then Some (digitVal a * 1000 + digitVal b * 100 + digitVal c * 10 + digitVal d, rest)
      else None)"
| "getyear _ = None"

fun skip :: "char \<Rightarrow> string \<Rightarrow> string option" where
  "skip c [] = None"
| "skip c (x # xs) = (if x = c then Some xs else None)"

definition in_range :: "int \<Rightarrow> int \<Rightarrow> int \<Rightarrow> unit option" where
  "in_range lo hi v = (if lo \<le> v \<and> v \<le> hi then Some () else None)"

definition parse_fields :: "string \<Rightarrow> Time option" where
  "parse_fields v0 = do {
     (y, v1) \<leftarrow> getyear v0;
     v2 \<leftarrow> skip (CHR ''-'') v1;
     (m, v3) \<leftarrow> getnum v2 True;
     _ \<leftarrow> in_range 1 12 m;
     v4 \<leftarrow> skip (CHR ''-'') v3;
     (d, v5) \<leftarrow> getnum v4 True;
     v6 \<leftarrow> skip (CHR ''T'') v5;
     (h, v7) \<leftarrow> getnum v6 False;
     _ \<leftarrow> in_range 0 23 h;
     v8 \<leftarrow> skip (CHR '':'') v7;
     (mi, v9) \<leftarrow> getnum v8 True;
     _ \<leftarrow> in_range 0 59 mi;
     v10 \<leftarrow> skip (CHR '':'') v9;
     (s, v11) \<leftarrow> getnum v10 True;
     _ \<leftarrow> in_range 0 59 s;
     _ \<leftarrow> (if v11 = [] then Some () else None);
     _ \<leftarrow> in_range 1 (daysIn m y) d;
     Some (Date y m d h mi s)
   }"

definition Parse :: "string \<Rightarrow> error + Time" where
  "Parse v = (case parse_fields v of None \<Rightarrow> Inl ParseError | Some t \<Rightarrow> Inr t)"

section \<open>Integers and their decimal text\<close>

text \<open>
  Go's \<open>int\<close> on a 64-bit platform: arithmetic wraps around, \<open>sint\<close> reads the value.
  \<open>Sprint\<close> is \<open>fmt.Sprint\<close> of an \<open>int\<close>: its decimal text, with a minus sign when
  negative.
\<close>

type_synonym go_int = "64 word"

fun digits_of :: "nat \<Rightarrow> string" where
  "digits_of n =
     (if n < 10 then [''0123456789'' ! n]
      else digits_of (n div 10) @ [''0123456789'' ! (n mod 10)])"

declare digits_of.simps [simp del]

definition Sprint :: "go_int \<Rightarrow> string" where
  "Sprint i =
     (if sint i < 0 then CHR ''-'' # digits_of (nat (- sint i)) else digits_of (nat (sint i)))"

section \<open>Configuration\<close>

text \<open>The structures of the configuration file, field by field.\<close>

record Partition =
  Partition_Type :: string
  Partition_Begin :: string
  Partition_End :: string

record Variable =
  Variable_Row :: go_int
  Variable_Col :: go_int
  Variable_Value :: string

record Totalization =
  Totalization_Col :: go_int
  Totalization_Formula :: string

record Source =
  Source_Name :: string
  Source_Partition :: Partition

record Input =
  Input_Type :: string
  Input_Sources :: "Source list"
  Input_Query :: string
  Input_TimeFormat :: string

record Output =
  Output_Name :: string
  Output_Variables :: "Variable list"
  Output_Totalizations :: "Totalization list"

record Template =
  Template_Path :: string
  Template_Sheet :: string
  Template_Row :: go_int
  Template_Col :: go_int

record Config =
  Input :: Input
  Output :: Output
  Template :: Template

section \<open>CreatePartitions\<close>

text \<open>
  The \<open>switch\<close> on the partition type selects the closure \<open>adder\<close>; the three
  closures are named by a \<open>granularity\<close>, \<open>None\<close> being the \<open>default\<close> branch.
\<close>

datatype granularity = Day | Month | Year

definition granularity_of :: "string \<Rightarrow> granularity option" where
  "granularity_of ty =
     (if ty = ''day'' \<or> ty = ''daily'' then Some Day
      else if ty = ''month'' \<or> ty = ''monthly'' then Some Month
      else if ty = ''year'' \<or> ty = ''yearly'' then Some Year
      else None)"

fun adder :: "granularity \<Rightarrow> Time \<Rightarrow> Time" where
  "adder Day cur = AddDate cur 0 0 1"
| "adder Month cur = AddDate cur 0 1 0"
| "adder Year cur = AddDate cur 1 0 0"

lemma adder_increases: "abs_seconds cur + 86400 \<le> abs_seconds (adder g cur)"
proof (cases g)
  case Day
  then show ?thesis by (simp add: AddDate_day)
next
  case Month
  then show ?thesis
    using daysIn_bounds(1) [of "(month cur - 1) mod 12 + 1" "year cur + (month cur - 1) div 12"]
    by (simp add: AddDate_month)
next
  case Year
  then show ?thesis using AddDate_year [of cur] by simp
qed

text \<open>
  The loop \<open>for ; cur.Before(end); cur = adder(cur) { res = append(res, cur) }\<close>
  followed by \<open>res = append(res, cur)\<close>.
\<close>

function boundaries :: "granularity \<Rightarrow> Time \<Rightarrow> Time \<Rightarrow> Time list \<Rightarrow> Time list" where
  "boundaries g end cur res =
     (if Before cur end then boundaries g end (adder g cur) (res @ [cur]) else res @ [cur])"
  by pat_completeness auto
termination
proof (relation "measure (\<lambda>(g, end, cur, res). nat (abs_seconds end - abs_seconds cur))")
  show "wf (measure (\<lambda>(g, end, cur, res). nat (abs_seconds end - abs_seconds cur)))"
    by simp
next
  fix g :: granularity and "end" cur :: Time and res :: "Time list"
  assume "Before cur end"
  then show "((g, end, adder g cur, res @ [cur]), (g, end, cur, res))
      \<in> measure (\<lambda>(g, end, cur, res). nat (abs_seconds end - abs_seconds cur))"
    using adder_increases [of cur g] by (simp add: Before_def)
qed

declare boundaries.simps [simp del]

definition CreatePartitions :: "Partition \<Rightarrow> error + Time list" where
  "CreatePartitions part =
     (case Parse (Partition_Begin part @ ''T00:00:00'') of
        Inl err \<Rightarrow> Inl err
      | Inr begin \<Rightarrow>
         (case Parse (Partition_End part @ ''T23:59:59'') of
            Inl err \<Rightarrow> Inl err
          | Inr end \<Rightarrow>
             (case granularity_of (Partition_Type part) of
                None \<Rightarrow> Inl UnsupportedPartitionType
              | Some g \<Rightarrow> Inr (boundaries g end begin []))))"

section \<open>Placeholder substitution\<close>

text \<open>
  \<open>strings.ReplaceAll(s, old, new)\<close>: scanning from the left, every occurrence of
  \<open>old\<close> that does not overlap an earlier one is replaced by \<open>new\<close>. For an empty
  \<open>old\<close> the library inserts \<open>new\<close> before every character and at the end (the
  program only passes the four non-empty tokens).
\<close>

fun ReplaceAll :: "string \<Rightarrow> string \<Rightarrow> string \<Rightarrow> string" where
  "ReplaceAll [] old new = (if old = [] then new else [])"
| "ReplaceAll (c # s) old new =
     (if old = [] then new @ c # ReplaceAll s old new
      else if prefix old (c # s) then new @ ReplaceAll (drop (length old) (c # s)) old new
      else c # ReplaceAll s old new)"

text \<open>
  The three chains of replacements of the source, named: the one of \<open>CloneTemplate\<close>
  for the output name (before \<open>.xlsx\<close> is appended), the one of \<open>Process\<close> for the
  query and for a variable's value, and the one for a totalization's formula.
\<close>

definition resolve_name :: "string \<Rightarrow> go_int \<Rightarrow> string \<Rightarrow> string \<Rightarrow> string" where
  "resolve_name name num begin end =
     ReplaceAll (ReplaceAll (ReplaceAll name ''{num}'' (Sprint num)) ''{part.beg}'' begin)
       ''{part.end}'' end"

definition resolve_range :: "string \<Rightarrow> string \<Rightarrow> string \<Rightarrow> string" where
  "resolve_range s begin end = ReplaceAll (ReplaceAll s ''{part.beg}'' begin) ''{part.end}'' end"

definition resolve_formula :: "string \<Rightarrow> string \<Rightarrow> string" where
  "resolve_formula formula lastRow = ReplaceAll formula ''{rows.last}'' lastRow"

section \<open>Collaborators\<close>

text \<open>
  A scanned column value. No claim inspects one; floating-point columns travel as text.
\<close>

datatype cell = CellInt int | CellText string | CellNull

text \<open>
  A workbook handle is named by the number of the partition it was opened for (the
  \<open>num\<close> passed to \<open>CloneTemplate\<close>).
\<close>

type_synonym handle = go_int

text \<open>
  The file system, the database and the spreadsheet library decide which of their calls
  fail and what a query returns. \<open>Queryx\<close> gives \<open>None\<close> for a failed query and else
  the rows, each \<open>None\<close> when its \<open>SliceScan\<close> fails. \<open>Format\<close> is
  \<open>t.Format(layout)\<close>. \<open>Save_fails\<close> tells whether \<open>tpl.Save()\<close> returns an
  error; the program never looks at that result, so no definition below reads the field.
\<close>

record world =
  OpenDb_fails :: "string \<Rightarrow> bool"
  ReadFile_fails :: "string \<Rightarrow> bool"
  WriteFile_fails :: "string \<Rightarrow> bool"
  OpenFile_fails :: "string \<Rightarrow> bool"
  Queryx :: "string \<Rightarrow> string \<Rightarrow> cell list option list option"
  SetSheetRow_fails :: "handle \<Rightarrow> string \<Rightarrow> string \<Rightarrow> cell list \<Rightarrow> bool"
  InsertRow_fails :: "handle \<Rightarrow> string \<Rightarrow> go_int \<Rightarrow> bool"
  CellStyle :: "handle \<Rightarrow> string \<Rightarrow> string \<Rightarrow> int"
  Save_fails :: "handle \<Rightarrow> bool"
  Format :: "Time \<Rightarrow> string \<Rightarrow> string"

text \<open>Every call the program makes on a collaborator, in order.\<close>

datatype event =
    OpenDb string
  | DbClose string
  | ReadFile string
  | WriteFile string
  | OpenFile handle string
  | Close handle
  | Query string string
  | Printf string string
  | SetSheetRow handle string string "cell list"
  | SetCellStr handle string string string
  | InsertRow handle string go_int
  | GetCellStyle handle string string
  | SetCellFormula handle string string string
  | SetCellStyle handle string string string int
  | Save handle
  | RowsClose

text \<open>How a function ends: it returns its error result (\<open>None\<close> is \<open>nil\<close>) or panics.\<close>

datatype outcome = Returned "error option" | Panic

section \<open>LoadTemplate and CloneTemplate\<close>

text \<open>
  \<open>LoadTemplate\<close> opens the file and, when that succeeds, registers the deferred
  \<open>tpl.Close()\<close>, which runs as the function returns the handle.
\<close>

definition LoadTemplate :: "world \<Rightarrow> handle \<Rightarrow> string \<Rightarrow> event list \<times> (error + handle)" where
  "LoadTemplate W h path =
     (if OpenFile_fails W path then ([OpenFile h path], Inl OpenFileError)
      else ([OpenFile h path, Close h], Inr h))"

definition CloneTemplate ::
  "world \<Rightarrow> Config \<Rightarrow> go_int \<Rightarrow> string \<Rightarrow> string \<Rightarrow> event list \<times> (error + handle)" where
  "CloneTemplate W cfg num begin end =
     (if ReadFile_fails W (Template_Path (Template cfg))
      then ([ReadFile (Template_Path (Template cfg))], Inl ReadFileError)
      else
        let dst = resolve_name (Output_Name (Output cfg)) num begin end @ ''.xlsx''
        in if WriteFile_fails W dst
           then ([ReadFile (Template_Path (Template cfg)), WriteFile dst], Inl WriteFileError)
           else (case LoadTemplate W num dst of
                   (evs, res) \<Rightarrow> (ReadFile (Template_Path (Template cfg)) # WriteFile dst # evs, res)))"

section \<open>Process\<close>

text \<open>The table \<open>ExcelCols\<close> of the 52 column names, written in rows of eight.\<close>

definition ExcelCols :: "string list" where
  "ExcelCols =
     [''A'', ''B'', ''C'', ''D'', ''E'', ''F'', ''G'', ''H''] @
     [''I'', ''J'', ''K'', ''L'', ''M'', ''N'', ''O'', ''P''] @
     [''Q'', ''R'', ''S'', ''T'', ''U'', ''V'', ''W'', ''X''] @
     [''Y'', ''Z''] @
     [''AA'', ''AB'', ''AC'', ''AD'', ''AE'', ''AF'', ''AG'', ''AH''] @
     [''AI'', ''AJ'', ''AK'', ''AL'', ''AM'', ''AN'', ''AO'', ''AP''] @
     [''AQ'', ''AR'', ''AS'', ''AT'', ''AU'', ''AV'', ''AW'', ''AX''] @
     [''AY'', ''AZ'']"

text \<open>\<open>ExcelCols[c]\<close>: \<open>None\<close> is the index-out-of-range panic.\<close>

definition ExcelCols_at :: "go_int \<Rightarrow> string option" where
  "ExcelCols_at c =
     (if 0 \<le> sint c \<and> sint c < int (length ExcelCols) then Some (ExcelCols ! nat (sint c))
      else None)"

text \<open>
  The loop \<open>for rows.Next()\<close>: the result is the row after the last written one, or the
  way the function ended inside the loop.
\<close>

fun write_rows ::
  "world \<Rightarrow> Config \<Rightarrow> handle \<Rightarrow> go_int \<Rightarrow> cell list option list \<Rightarrow> event list \<times> (outcome + go_int)" where
  "write_rows W cfg tpl r [] = ([], Inr r)"
| "write_rows W cfg tpl r (scan # rows) =
     (case scan of
        None \<Rightarrow> ([], Inl (Returned (Some ScanError)))
      | Some cols \<Rightarrow>
         (case ExcelCols_at (Template_Col (Template cfg) - 1) of
            None \<Rightarrow> ([], Inl Panic)
          | Some col \<Rightarrow>
             let axis = col @ Sprint r;
                 call = SetSheetRow tpl (Template_Sheet (Template cfg)) axis cols
             in if SetSheetRow_fails W tpl (Template_Sheet (Template cfg)) axis cols
                then ([call], Inl (Returned (Some SetSheetRowError)))
                else (case write_rows W cfg tpl (r + 1) rows of
                        (evs, res) \<Rightarrow> (call # evs, res))))"

text \<open>The loop over the variables; the error of \<open>SetCellStr\<close> is discarded.\<close>

fun write_variables ::
  "Config \<Rightarrow> handle \<Rightarrow> string \<Rightarrow> string \<Rightarrow> Variable list \<Rightarrow> event list \<times> outcome option" where
  "write_variables cfg tpl begin end [] = ([], None)"
| "write_variables cfg tpl begin end (variable # vs) =
     (case ExcelCols_at (Variable_Col variable - 1) of
        None \<Rightarrow> ([], Some Panic)
      | Some col \<Rightarrow>
         let axis = col @ Sprint (Variable_Row variable);
             value = resolve_range (Variable_Value variable) begin end
         in (case write_variables cfg tpl begin end vs of
               (evs, res) \<Rightarrow>
                 (SetCellStr tpl (Template_Sheet (Template cfg)) axis value # evs, res)))"

text \<open>
  The loop over the totalizations; the errors of \<open>GetCellStyle\<close>, \<open>SetCellFormula\<close>
  and \<open>SetCellStyle\<close> are discarded.
\<close>

fun write_totals ::
  "world \<Rightarrow> Config \<Rightarrow> handle \<Rightarrow> go_int \<Rightarrow> Totalization list \<Rightarrow> event list \<times> outcome option" where
  "write_totals W cfg tpl r [] = ([], None)"
| "write_totals W cfg tpl r (tot # ts) =
     (case ExcelCols_at (Totalization_Col tot - 1) of
        None \<Rightarrow> ([], Some Panic)
      | Some col \<Rightarrow>
         let sheet = Template_Sheet (Template cfg);
             axis = col @ Sprint r;
             lastRow = Sprint (r - 1);
             formula = resolve_formula (Totalization_Formula tot) lastRow;
             style = CellStyle W tpl sheet (col @ lastRow)
         in (case write_totals W cfg tpl r ts of
               (evs, res) \<Rightarrow>
                 (GetCellStyle tpl sheet (col @ lastRow) # SetCellFormula tpl sheet axis formula
                    # SetCellStyle tpl sheet axis axis style # evs, res)))"

text \<open>
  One iteration of the loop over the partitions, for the boundaries \<open>partitions[p]\<close> and
  \<open>partitions[p+1]\<close>; \<open>None\<close> means that the iteration ran to its end.
\<close>

definition Process_partition ::
  "world \<Rightarrow> Config \<Rightarrow> string \<Rightarrow> go_int \<Rightarrow> Time \<Rightarrow> Time \<Rightarrow> event list \<times> outcome option" where
  "Process_partition W cfg db num lo hi =
     (let begin = Format W lo (Input_TimeFormat (Input cfg));
          end = Format W (AddDate hi 0 0 (- 1)) (Input_TimeFormat (Input cfg))
      in case CloneTemplate W cfg num begin end of
           (evs0, Inl err) \<Rightarrow> (evs0, Some (Returned (Some err)))
         | (evs0, Inr tpl) \<Rightarrow>
            let query = resolve_range (Input_Query (Input cfg)) begin end
            in case Queryx W db query of
                 None \<Rightarrow> (evs0 @ [Query db query], Some (Returned (Some QueryError)))
               | Some rows \<Rightarrow>
                  let evs1 = evs0 @ [Query db query, Printf begin end]
                  in case write_rows W cfg tpl (Template_Row (Template cfg)) rows of
                       (evs2, Inl out) \<Rightarrow> (evs1 @ evs2, Some out)
                     | (evs2, Inr r) \<Rightarrow>
                        (case write_variables cfg tpl begin end (Output_Variables (Output cfg)) of
                           (evs3, Some out) \<Rightarrow> (evs1 @ evs2 @ evs3, Some out)
                         | (evs3, None) \<Rightarrow>
                            let sheet = Template_Sheet (Template cfg);
                                tots = Output_Totalizations (Output cfg);
                                evs4 = (if tots \<noteq> [] then [InsertRow tpl sheet r] else [])
                            in if tots \<noteq> [] \<and> InsertRow_fails W tpl sheet r
                               then (evs1 @ evs2 @ evs3 @ evs4, Some (Returned (Some InsertRowError)))
                               else (case write_totals W cfg tpl r tots of
                                       (evs5, Some out) \<Rightarrow>
                                         (evs1 @ evs2 @ evs3 @ evs4 @ evs5, Some out)
                                     | (evs5, None) \<Rightarrow>
                                         (evs1 @ evs2 @ evs3 @ evs4 @ evs5
                                            @ [Save tpl, Close tpl, RowsClose], None))))"

text \<open>The loop \<open>for p := 0; p < len(partitions)-1; p++\<close>, from index \<open>p\<close> on
  (\<open>n_total\<close> is the parameter \<open>total\<close>).\<close>

fun Process_from ::
  "world \<Rightarrow> Config \<Rightarrow> string \<Rightarrow> go_int \<Rightarrow> go_int \<Rightarrow> Time list \<Rightarrow> event list \<times> outcome" where
  "Process_from W cfg db n_total p (lo # hi # rest) =
     (case Process_partition W cfg db (n_total + p) lo hi of
        (evs, Some out) \<Rightarrow> (evs, out)
      | (evs, None) \<Rightarrow>
         (case Process_from W cfg db n_total (p + 1) (hi # rest) of
            (evs', out) \<Rightarrow> (evs @ evs', out)))"
| "Process_from W cfg db n_total p partitions = ([], Returned None)"

definition Process ::
  "world \<Rightarrow> Config \<Rightarrow> string \<Rightarrow> go_int \<Rightarrow> Time list \<Rightarrow> event list \<times> outcome" where
  "Process W cfg db n_total partitions = Process_from W cfg db n_total 0 partitions"

section \<open>main\<close>

text \<open>
  How the program ends: normally, by \<open>log.Fatalf\<close> with an error, or by a panic. The
  loop over the sources is \<open>run_sources\<close>; \<open>main\<close> starts it with \<open>total = 1\<close> on a
  loaded configuration.
\<close>

datatype exit = Done | Fatal error | Crashed

fun run_sources :: "world \<Rightarrow> Config \<Rightarrow> go_int \<Rightarrow> Source list \<Rightarrow> event list \<times> exit" where
  "run_sources W cfg n_total [] = ([], Done)"
| "run_sources W cfg n_total (source # sources) =
     (if OpenDb_fails W (Source_Name source) then ([OpenDb (Source_Name source)], Fatal OpenDbError)
      else case CreatePartitions (Source_Partition source) of
             Inl err \<Rightarrow> ([OpenDb (Source_Name source)], Fatal err)
           | Inr partitions \<Rightarrow>
              (case Process W cfg (Source_Name source) n_total partitions of
                 (evs, Returned (Some err)) \<Rightarrow> (OpenDb (Source_Name source) # evs, Fatal err)
               | (evs, Panic) \<Rightarrow> (OpenDb (Source_Name source) # evs, Crashed)
               | (evs, Returned None) \<Rightarrow>
                  (case run_sources W cfg (n_total + (of_nat (length partitions) - 1)) sources of
                     (evs', ex) \<Rightarrow>
                       (OpenDb (Source_Name source) # evs @ DbClose (Source_Name source) # evs',
                        ex))))"

definition main :: "world \<Rightarrow> Config \<Rightarrow> event list \<times> exit" where
  "main W cfg = run_sources W cfg 1 (Input_Sources (Input cfg))"

section \<open>Notions used in the statements\<close>

text \<open>The list the loop appends to its accumulator, from \<open>cur\<close> on.\<close>

function boundaries_from :: "granularity \<Rightarrow> Time \<Rightarrow> Time \<Rightarrow> Time list" where
  "boundaries_from g end cur =
     (if Before cur end then cur # boundaries_from g end (adder g cur) else [cur])"
  by pat_completeness auto
termination
proof (relation "measure (\<lambda>(g, end, cur). nat (abs_seconds end - abs_seconds cur))")
  show "wf (measure (\<lambda>(g, end, cur). nat (abs_seconds end - abs_seconds cur)))"
    by simp
next
  fix g :: granularity and "end" cur :: Time
  assume "Before cur end"
  then show "((g, end, adder g cur), (g, end, cur))
      \<in> measure (\<lambda>(g, end, cur). nat (abs_seconds end - abs_seconds cur))"
    using adder_increases [of cur g] by (simp add: Before_def)
qed

declare boundaries_from.simps [simp del]

text \<open>The workbook handle an operation acts on; opening creates the handle.\<close>

fun event_handle :: "event \<Rightarrow> handle option" where
  "event_handle (Close h) = Some h"
| "event_handle (SetSheetRow h sheet axis cols) = Some h"
| "event_handle (SetCellStr h sheet axis v) = Some h"
| "event_handle (InsertRow h sheet r) = Some h"
| "event_handle (GetCellStyle h sheet axis) = Some h"
| "event_handle (SetCellFormula h sheet axis f) = Some h"
| "event_handle (SetCellStyle h sheet hcell vcell style) = Some h"
| "event_handle (Save h) = Some h"
| "event_handle ev = None"

text \<open>
  \<open>after_close closed evs\<close>: in the trace \<open>evs\<close>, started when the handles in
  \<open>closed\<close> have been closed, every operation on a handle other than its first
  \<open>Close\<close> acts on a handle that has already been closed.
\<close>

fun after_close :: "handle set \<Rightarrow> event list \<Rightarrow> bool" where
  "after_close closed [] = True"
| "after_close closed (Close h # evs) = after_close (insert h closed) evs"
| "after_close closed (ev # evs) =
     ((case event_handle ev of None \<Rightarrow> True | Some h \<Rightarrow> h \<in> closed) \<and> after_close closed evs)"

definition on_handle :: "handle \<Rightarrow> event list \<Rightarrow> bool" where
  "on_handle h evs = list_all (\<lambda>ev. event_handle ev = Some h \<or> event_handle ev = None) evs"

text \<open>
  A template as the specification sees it: literal text without an opening brace, and
  placeholder tokens. \<open>template_text\<close> spells it out; \<open>fill_name\<close>, \<open>fill_range\<close> and
  \<open>fill_formula\<close> put the context value in the place of the tokens each kind of template
  supports and leave the other tokens as they are.
\<close>

datatype piece = Lit string | TokNum | TokPartBeg | TokPartEnd | TokRowsLast

fun piece_text :: "piece \<Rightarrow> string" where
  "piece_text (Lit s) = s"
| "piece_text TokNum = ''{num}''"
| "piece_text TokPartBeg = ''{part.beg}''"
| "piece_text TokPartEnd = ''{part.end}''"
| "piece_text TokRowsLast = ''{rows.last}''"

definition template_text :: "piece list \<Rightarrow> string" where
  "template_text ps = concat (map piece_text ps)"

fun brace_free :: "piece \<Rightarrow> bool" where
  "brace_free (Lit s) = (CHR ''{'' \<notin> set s)"
| "brace_free p = True"

fun fill_name :: "string \<Rightarrow> string \<Rightarrow> string \<Rightarrow> piece \<Rightarrow> string" where
  "fill_name num begin end TokNum = num"
| "fill_name num begin end TokPartBeg = begin"
| "fill_name num begin end TokPartEnd = end"
| "fill_name num begin end p = piece_text p"

fun fill_range :: "string \<Rightarrow> string \<Rightarrow> piece \<Rightarrow> string" where
  "fill_range begin end TokPartBeg = begin"
| "fill_range begin end TokPartEnd = end"
| "fill_range begin end p = piece_text p"

fun fill_formula :: "string \<Rightarrow> piece \<Rightarrow> string" where
  "fill_formula lastRow TokRowsLast = lastRow"
| "fill_formula lastRow p = piece_text p"

text \<open>The calls \<open>write_totals\<close> makes for one totalization whose column is \<open>col\<close>.\<close>

definition total_calls :: "world \<Rightarrow> handle \<Rightarrow> string \<Rightarrow> go_int \<Rightarrow> Totalization \<Rightarrow> event list" where
  "total_calls W tpl sheet r tot =
     (case ExcelCols_at (Totalization_Col tot - 1) of
        None \<Rightarrow> []
      | Some col \<Rightarrow>
          [GetCellStyle tpl sheet (col @ Sprint (r - 1)),
           SetCellFormula tpl sheet (col @ Sprint r)
             (resolve_formula (Totalization_Formula tot) (Sprint (r - 1))),
           SetCellStyle tpl sheet (col @ Sprint r) (col @ Sprint r)
             (CellStyle W tpl sheet (col @ Sprint (r - 1)))])"

text \<open>
  The configuration file shipped with the program (the query is written on one line).
\<close>

definition example_config :: Config where
  "example_config =
     \<lparr>Input = \<lparr>Input_Type = ''sqlite3'',
                Input_Sources = [\<lparr>Source_Name = ''mysqlite3.db'',
                   Source_Partition = \<lparr>Partition_Type = ''monthly'',
                     Partition_Begin = ''2022-01-01'', Partition_End = ''2022-12-31''\<rparr>\<rparr>],
                Input_Query = ''select id, date, value, value * 2 as double from mytable where date between '{part.beg}' and '{part.end}' order by id asc;'',
                Input_TimeFormat = ''2006-01-02''\<rparr>,
      Output = \<lparr>Output_Name = ''My plan - {part.beg}-{part.end}'',
                 Output_Variables = [\<lparr>Variable_Row = 6, Variable_Col = 2,
                    Variable_Value = ''partition {part.beg} to {part.end}''\<rparr>],
                 Output_Totalizations =
                   [\<lparr>Totalization_Col = 4, Totalization_Formula = ''=SUM(D10:D{rows.last})''\<rparr>,
                    \<lparr>Totalization_Col = 5, Totalization_Formula = ''=SUM(E10:E{rows.last})''\<rparr>]\<rparr>,
      Template = \<lparr>Template_Path = ''template.xlsx'', Template_Sheet = ''example'',
                   Template_Row = 10, Template_Col = 2\<rparr>\<rparr>"

text \<open>
  \<open>t.Format("2006-01-02")\<close> for a year from 0 to 9999: the year on four digits, the
  month and the day on two.
\<close>

definition zero_pad :: "nat \<Rightarrow> string \<Rightarrow> string" where
  "zero_pad w s = replicate (w - length s) (CHR ''0'') @ s"

definition format_date :: "Time \<Rightarrow> string" where
  "format_date t =
     zero_pad 4 (digits_of (nat (year t))) @ ''-'' @ zero_pad 2 (digits_of (nat (month t)))
       @ ''-'' @ zero_pad 2 (digits_of (nat (day t)))"

text \<open>
  A world in which no call fails except, when \<open>save_fails\<close> is set, every \<open>Save\<close>;
  every query returns \<open>rows\<close> and times are formatted with the layout \<open>2006-01-02\<close>.
\<close>

definition example_world :: "cell list option list \<Rightarrow> bool \<Rightarrow> world" where
  "example_world rows save_fails =
     \<lparr>OpenDb_fails = (\<lambda>name. False),
      ReadFile_fails = (\<lambda>path. False),
      WriteFile_fails = (\<lambda>path. False),
      OpenFile_fails = (\<lambda>path. False),
      Queryx = (\<lambda>db query. Some rows),
      SetSheetRow_fails = (\<lambda>tpl sheet axis cols. False),
      InsertRow_fails = (\<lambda>tpl sheet r. False),
      CellStyle = (\<lambda>tpl sheet axis. 0),
      Save_fails = (\<lambda>tpl. save_fails),
      Format = (\<lambda>t layout. format_date t)\<rparr>"

definition example_rows :: "cell list option list" where
  "example_rows =
     [Some [CellInt 1, CellText ''2022-01-03'', CellInt 10, CellInt 20],
      Some [CellInt 2, CellText ''2022-01-17'', CellInt 15, CellInt 30],
      Some [CellInt 3, CellText ''2022-01-25'', CellInt 5, CellInt 10]]"

text \<open>A configuration without variables and totalizations, numbering its output files.\<close>

definition plain_config :: Config where
  "plain_config = example_config\<lparr>Output :=
     \<lparr>Output_Name = ''part {num}'', Output_Variables = [], Output_Totalizations = []\<rparr>\<rparr>"

section \<open>Lemmas\<close>

subsection \<open>The loop of CreatePartitions\<close>

lemma boundaries_acc: "boundaries g e cur res = res @ boundaries_from g e cur"
proof (induction g e cur res rule: boundaries.induct)
  case (1 g e cur res)
  show ?case
  proof (cases "Before cur e")
    case True
    then have "boundaries g e cur res = boundaries g e (adder g cur) (res @ [cur])"
      by (subst boundaries.simps) simp
    also have "\<dots> = (res @ [cur]) @ boundaries_from g e (adder g cur)"
      using "1.IH" [OF True] .
    also have "\<dots> = res @ boundaries_from g e cur"
      using True by (subst (2) boundaries_from.simps) simp
    finally show ?thesis .
  next
    case False
    then show ?thesis
      by (subst boundaries.simps, subst boundaries_from.simps) simp
  qed
qed

lemma Before_adder: "Before cur (adder g cur)"
  using adder_increases [of cur g] by (simp add: Before_def)

lemma Before_trans: "Before a b \<Longrightarrow> Before b c \<Longrightarrow> Before a c"
  by (simp add: Before_def)

lemma boundaries_from_props:
  "boundaries_from g e cur \<noteq> []
   \<and> hd (boundaries_from g e cur) = cur
   \<and> list_all (\<lambda>t. Before cur t) (tl (boundaries_from g e cur))
   \<and> sorted_wrt Before (boundaries_from g e cur)
   \<and> tl (boundaries_from g e cur) = map (adder g) (butlast (boundaries_from g e cur))
   \<and> list_all (\<lambda>t. Before t e) (butlast (boundaries_from g e cur))
   \<and> \<not> Before (last (boundaries_from g e cur)) e"
proof (induction g e cur rule: boundaries_from.induct)
  case (1 g e cur)
  show ?case
  proof (cases "Before cur e")
    case True
    let ?r = "boundaries_from g e (adder g cur)"
    have eq: "boundaries_from g e cur = cur # ?r"
      using True by (subst boundaries_from.simps) simp
    note IH = "1.IH" [OF True]
    from IH have ne: "?r \<noteq> []" and hd: "hd ?r = adder g cur" by simp_all
    then have r: "?r = adder g cur # tl ?r" by (cases ?r) auto
    have after: "list_all (\<lambda>t. Before cur t) ?r"
    proof -
      have "list_all (\<lambda>t. Before cur t) (tl ?r)"
        using IH Before_adder [of cur g] Before_trans
        by (auto simp: list_all_iff)
      with Before_adder [of cur g] show ?thesis
        by (subst r) simp
    qed
    have "tl ?r = map (adder g) (butlast ?r)" using IH by simp
    then have step: "?r = map (adder g) (butlast (cur # ?r))"
      using ne r by (metis butlast.simps(2) list.simps(9))
    show ?thesis
      unfolding eq using IH ne after step True
      by (simp add: list_all_iff)
  next
    case False
    then have "boundaries_from g e cur = [cur]"
      by (subst boundaries_from.simps) simp
    with False show ?thesis by simp
  qed
qed

lemma getyear_Some: "getyear v = Some (y, r) \<Longrightarrow> \<exists>a b c d. v = a # b # c # d # r"
  by (cases v rule: getyear.cases) (auto split: if_splits)

lemma skip_Some: "skip c v = Some r \<Longrightarrow> v = c # r"
  by (cases v) (auto split: if_splits)

lemma getnum_fixed:
  "getnum v True = Some (n, r) \<Longrightarrow>
   \<exists>a b. v = a # b # r \<and> isDigit b \<and> n = digitVal a * 10 + digitVal b"
  by (cases "(v, True)" rule: getnum.cases) (auto split: if_splits)

lemma getnum_free:
  "getnum v False = Some (n, r) \<Longrightarrow>
   (\<exists>a b. v = a # b # r \<and> n = digitVal a * 10 + digitVal b) \<or> (\<exists>a. v = a # r)"
  by (cases "(v, False)" rule: getnum.cases) (auto split: if_splits)

lemma parse_fields_shape:
  assumes "parse_fields v = Some t"
  shows "\<exists>y m d h mi s p d2 hp a b c e.
     t = Date y m d h mi s \<and> v = p @ d2 # CHR ''T'' # hp @ [CHR '':'', a, b, CHR '':'', c, e]
     \<and> isDigit d2 \<and> mi = digitVal a * 10 + digitVal b \<and> s = digitVal c * 10 + digitVal e
     \<and> ((\<exists>h1 h2. hp = [h1, h2] \<and> h = digitVal h1 * 10 + digitVal h2) \<or> (\<exists>h1. hp = [h1]))"
proof -
  from assms obtain y v1 v2 m v3 v4 d v5 v6 h v7 v8 mi v9 v10 s where
    gy: "getyear v = Some (y, v1)" and s1: "skip (CHR ''-'') v1 = Some v2"
    and gm: "getnum v2 True = Some (m, v3)" and s2: "skip (CHR ''-'') v3 = Some v4"
    and gd: "getnum v4 True = Some (d, v5)" and s3: "skip (CHR ''T'') v5 = Some v6"
    and gh: "getnum v6 False = Some (h, v7)" and s4: "skip (CHR '':'') v7 = Some v8"
    and gmi: "getnum v8 True = Some (mi, v9)" and s5: "skip (CHR '':'') v9 = Some v10"
    and gs: "getnum v10 True = Some (s, [])" and t: "t = Date y m d h mi s"
    by (auto simp: parse_fields_def in_range_def Option.bind_eq_Some_conv split: if_splits)
  from getnum_fixed [OF gs] obtain c e where v10: "v10 = [c, e]"
    and s: "s = digitVal c * 10 + digitVal e" by auto
  from skip_Some [OF s5] have v9: "v9 = CHR '':'' # v10" .
  from getnum_fixed [OF gmi] obtain a b where v8: "v8 = a # b # v9"
    and mi: "mi = digitVal a * 10 + digitVal b" by auto
  from skip_Some [OF s4] have v7: "v7 = CHR '':'' # v8" .
  from getnum_free [OF gh] have "\<exists>hp. v6 = hp @ v7
      \<and> ((\<exists>h1 h2. hp = [h1, h2] \<and> h = digitVal h1 * 10 + digitVal h2) \<or> (\<exists>h1. hp = [h1]))"
    by auto
  then obtain hp where v6: "v6 = hp @ v7"
    and hp: "(\<exists>h1 h2. hp = [h1, h2] \<and> h = digitVal h1 * 10 + digitVal h2) \<or> (\<exists>h1. hp = [h1])"
    by blast
  from skip_Some [OF s3] have v5: "v5 = CHR ''T'' # v6" .
  from getnum_fixed [OF gd] obtain d1 d2 where v4: "v4 = d1 # d2 # v5" and d2: "isDigit d2"
    by auto
  from skip_Some [OF s2] have v3: "v3 = CHR ''-'' # v4" .
  from getnum_fixed [OF gm] obtain m1 m2 where v2: "v2 = m1 # m2 # v3" by auto
  from skip_Some [OF s1] have v1: "v1 = CHR ''-'' # v2" .
  from getyear_Some [OF gy] obtain y1 y2 y3 y4 where v: "v = y1 # y2 # y3 # y4 # v1" by auto
  have "v = [y1, y2, y3, y4, CHR ''-'', m1, m2, CHR ''-'', d1] @ d2 # CHR ''T'' # hp
      @ [CHR '':'', a, b, CHR '':'', c, e]"
    by (simp add: v v1 v2 v3 v4 v5 v6 v7 v8 v9 v10)
  with t d2 mi s hp show ?thesis by blast
qed

lemma Parse_clock:
  assumes "Parse (x @ [CHR ''T'', k1, k2, CHR '':'', k3, k4, CHR '':'', k5, k6]) = Inr t"
  shows "\<exists>y m d. t = Date y m d (digitVal k1 * 10 + digitVal k2)
      (digitVal k3 * 10 + digitVal k4) (digitVal k5 * 10 + digitVal k6)"
proof -
  let ?suf = "[CHR ''T'', k1, k2, CHR '':'', k3, k4, CHR '':'', k5, k6]"
  from assms have "parse_fields (x @ ?suf) = Some t"
    by (simp add: Parse_def split: option.splits)
  from parse_fields_shape [OF this] obtain y m d h mi s p d2 hp a b c e where
    t: "t = Date y m d h mi s"
    and v: "x @ ?suf = p @ d2 # CHR ''T'' # hp @ [CHR '':'', a, b, CHR '':'', c, e]"
    and d2: "isDigit d2" and mi: "mi = digitVal a * 10 + digitVal b"
    and s: "s = digitVal c * 10 + digitVal e"
    and hp: "(\<exists>h1 h2. hp = [h1, h2] \<and> h = digitVal h1 * 10 + digitVal h2) \<or> (\<exists>h1. hp = [h1])"
    by blast
  from hp show ?thesis
  proof (elim disjE exE conjE)
    fix h1 h2 assume hp2: "hp = [h1, h2]" and h: "h = digitVal h1 * 10 + digitVal h2"
    have "x @ ?suf = (p @ [d2]) @ [CHR ''T'', h1, h2, CHR '':'', a, b, CHR '':'', c, e]"
      using v hp2 by simp
    then have "?suf = [CHR ''T'', h1, h2, CHR '':'', a, b, CHR '':'', c, e]"
      by (subst (asm) append_eq_append_conv) simp_all
    with t h mi s show ?thesis by auto
  next
    fix h1 assume "hp = [h1]"
    then have "x @ ?suf = p @ [d2, CHR ''T'', h1, CHR '':'', a, b, CHR '':'', c, e]"
      using v by simp
    then have "?suf = [d2, CHR ''T'', h1, CHR '':'', a, b, CHR '':'', c, e]"
      by (subst (asm) append_eq_append_conv) simp_all
    then have "d2 = CHR ''T''" by simp
    with d2 show ?thesis by (simp add: isDigit_def)
  qed
qed

lemma abs_seconds_Date_clock:
  "abs_seconds (Date y m d h mi s) = abs_days y m d * 86400 + (h * 3600 + mi * 60 + s)"
  by (simp add: abs_Date abs_of_def)

lemma Parse_begin_clock:
  "Parse (x @ ''T00:00:00'') = Inr t \<Longrightarrow> \<exists>k. abs_seconds t = k * 86400"
  using Parse_clock [of x "CHR ''0''" "CHR ''0''" "CHR ''0''" "CHR ''0''" "CHR ''0''" "CHR ''0''" t]
  by (auto simp: digitVal_def abs_seconds_Date_clock)

lemma Parse_end_clock:
  "Parse (x @ ''T23:59:59'') = Inr t \<Longrightarrow> \<exists>k. abs_seconds t = k * 86400 + 86399"
  using Parse_clock [of x "CHR ''2''" "CHR ''3''" "CHR ''5''" "CHR ''9''" "CHR ''5''" "CHR ''9''" t]
  by (auto simp: digitVal_def abs_seconds_Date_clock)

lemma adder_whole_days: "\<exists>k. abs_seconds (adder g cur) = abs_seconds cur + k * 86400"
proof -
  have "\<exists>k. abs_of y' m' d' h mi s = abs_of y m d h mi s + k * 86400" for y' m' d' y m d h mi s
    by (rule exI [of _ "abs_days y' m' d' - abs_days y m d"]) (simp add: abs_of_def algebra_simps)
  then show ?thesis
    by (cases g) (simp_all add: AddDate_def abs_Date, simp_all add: abs_seconds_def)
qed

lemma boundaries_from_whole_days:
  "list_all (\<lambda>t. \<exists>k. abs_seconds t = abs_seconds cur + k * 86400) (boundaries_from g e cur)"
proof (induction g e cur rule: boundaries_from.induct)
  case (1 g e cur)
  have self: "\<exists>k. abs_seconds cur = abs_seconds cur + k * 86400"
    by (rule exI [of _ 0]) simp
  show ?case
  proof (cases "Before cur e")
    case True
    obtain j where j: "abs_seconds (adder g cur) = abs_seconds cur + j * 86400"
      using adder_whole_days by blast
    have "\<exists>k. abs_seconds t = abs_seconds cur + k * 86400"
      if "\<exists>k. abs_seconds t = abs_seconds (adder g cur) + k * 86400" for t
    proof -
      from that obtain k where "abs_seconds t = abs_seconds (adder g cur) + k * 86400" by blast
      with j have "abs_seconds t = abs_seconds cur + (j + k) * 86400"
        by (simp add: algebra_simps)
      then show ?thesis by blast
    qed
    with "1.IH" [OF True] have "list_all (\<lambda>t. \<exists>k. abs_seconds t = abs_seconds cur + k * 86400)
        (boundaries_from g e (adder g cur))"
      by (simp add: list_all_iff)
    with self True show ?thesis
      by (subst boundaries_from.simps) simp
  next
    case False
    with self show ?thesis
      by (subst boundaries_from.simps) simp
  qed
qed

lemma day_start_not_day_end:
  fixes j k :: int
  shows "j * 86400 \<noteq> k * 86400 + 86399"
proof
  assume "j * 86400 = k * 86400 + 86399"
  then have "(j * 86400) mod 86400 = (k * 86400 + 86399) mod 86400" by simp
  then show False by simp
qed

subsection \<open>The column table\<close>

lemma sint_pred:
  fixes col :: go_int
  shows "sint (col - 1) = (if sint col = - (2 ^ 63) then 2 ^ 63 - 1 else sint col - 1)"
proof -
  have s: "sint (col - 1) = signed_take_bit 63 (sint col - 1)"
    by (simp add: sint_word_ariths)
  have b: "- (2 ^ 63) \<le> sint col" "sint col < 2 ^ 63"
    using sint_ge [of col] sint_lt [of col] by simp_all
  show ?thesis
  proof (cases "sint col = - (2 ^ 63)")
    case True
    then show ?thesis unfolding s by simp
  next
    case False
    with b have "- (2 ^ 63) \<le> sint col - 1" "sint col - 1 < 2 ^ 63" by simp_all
    then have "signed_take_bit 63 (sint col - 1) = sint col - 1"
      by (simp add: signed_take_bit_int_eq_self)
    with False s show ?thesis by simp
  qed
qed

lemma ExcelCols_letters:
  "ExcelCols = map (\<lambda>c. [c]) ''ABCDEFGHIJKLMNOPQRSTUVWXYZ''
     @ map (\<lambda>c. [CHR ''A'', c]) ''ABCDEFGHIJKLMNOPQRSTUVWXYZ''"
  by (simp add: ExcelCols_def)

lemma nth_two_maps:
  "i < length xs \<Longrightarrow> (map f xs @ map g xs) ! i = f (xs ! i)"
  "length xs = k \<Longrightarrow> k \<le> i \<Longrightarrow> i - k < k \<Longrightarrow>
     (map f xs @ map g xs) ! i = g (xs ! (i - k))"
  by (simp_all add: nth_append)

lemma length_ExcelCols: "length ExcelCols = 52"
  by (simp add: ExcelCols_def)

lemma ExcelCols_at_None: "ExcelCols_at (col - 1) = None \<longleftrightarrow> \<not> (1 \<le> sint col \<and> sint col \<le> 52)"
  unfolding ExcelCols_at_def length_ExcelCols sint_pred by auto

lemma ExcelCols_at_single:
  assumes "1 \<le> sint col" "sint col \<le> 26"
  shows "ExcelCols_at (col - 1) = Some [''ABCDEFGHIJKLMNOPQRSTUVWXYZ'' ! nat (sint col - 1)]"
proof -
  have i: "nat (sint col - 1) < 26" using assms by simp
  have "ExcelCols ! nat (sint col - 1) = [''ABCDEFGHIJKLMNOPQRSTUVWXYZ'' ! nat (sint col - 1)]"
    unfolding ExcelCols_letters by (rule nth_two_maps(1)) (use i in simp)
  then show ?thesis
    unfolding ExcelCols_at_def length_ExcelCols sint_pred using assms by simp
qed

lemma ExcelCols_at_double:
  assumes "27 \<le> sint col" "sint col \<le> 52"
  shows "ExcelCols_at (col - 1) = Some [CHR ''A'', ''ABCDEFGHIJKLMNOPQRSTUVWXYZ'' ! nat (sint col - 27)]"
proof -
  have i: "nat (sint col - 1) - 26 = nat (sint col - 27)" "nat (sint col - 27) < 26"
     "26 \<le> nat (sint col - 1)"
    using assms by simp_all
  have "ExcelCols ! nat (sint col - 1)
      = [CHR ''A'', ''ABCDEFGHIJKLMNOPQRSTUVWXYZ'' ! (nat (sint col - 1) - 26)]"
    unfolding ExcelCols_letters by (rule nth_two_maps(2)) (use i in simp_all)
  then have "ExcelCols ! nat (sint col - 1)
      = [CHR ''A'', ''ABCDEFGHIJKLMNOPQRSTUVWXYZ'' ! nat (sint col - 27)]"
    by (simp only: i(1))
  then show ?thesis
    unfolding ExcelCols_at_def length_ExcelCols sint_pred using assms by simp
qed

subsection \<open>Traces of Process\<close>

lemma after_close_on_handle:
  "h \<in> closed \<Longrightarrow> on_handle h evs \<Longrightarrow> after_close closed evs"
proof (induction evs arbitrary: closed)
  case Nil
  then show ?case by simp
next
  case (Cons ev evs)
  then show ?case
    by (cases ev) (auto simp: on_handle_def)
qed

lemma after_close_no_handle:
  "list_all (\<lambda>ev. event_handle ev = None) evs \<Longrightarrow> after_close closed (evs @ evs')
     = after_close closed evs'"
proof (induction evs)
  case Nil
  then show ?case by simp
next
  case (Cons ev evs)
  then show ?case by (cases ev) auto
qed

lemma on_handle_append [simp]: "on_handle h (xs @ ys) = (on_handle h xs \<and> on_handle h ys)"
  by (simp add: on_handle_def)

lemma on_handle_write_rows:
  "write_rows W cfg tpl r rows = (evs, res) \<Longrightarrow> on_handle tpl evs"
  by (induction rows arbitrary: r evs res)
     (auto simp: on_handle_def Let_def split: option.splits prod.splits if_splits)

lemma on_handle_write_variables:
  "write_variables cfg tpl b e vs = (evs, res) \<Longrightarrow> on_handle tpl evs"
  by (induction vs arbitrary: evs res)
     (auto simp: on_handle_def Let_def split: option.splits prod.splits)

lemma on_handle_write_totals:
  "write_totals W cfg tpl r ts = (evs, res) \<Longrightarrow> on_handle tpl evs"
  by (induction ts arbitrary: evs res)
     (auto simp: on_handle_def Let_def split: option.splits prod.splits)

lemma CloneTemplate_events:
  "CloneTemplate W cfg num b e = (evs, res) \<Longrightarrow>
     (\<exists>dst. res = Inr num \<and> evs = [ReadFile (Template_Path (Template cfg)), WriteFile dst,
         OpenFile num dst, Close num])
     \<or> ((\<exists>err. res = Inl err) \<and> list_all (\<lambda>ev. event_handle ev = None) evs)"
  by (auto simp: CloneTemplate_def LoadTemplate_def Let_def split: if_splits)

lemma Process_partition_events:
  assumes "Process_partition W cfg db num lo hi = (evs, res)"
  shows "(\<exists>dst ops. evs = [ReadFile (Template_Path (Template cfg)), WriteFile dst,
            OpenFile num dst, Close num] @ ops \<and> on_handle num ops
            \<and> (res = None \<longrightarrow> (\<exists>ops'. ops = ops' @ [Save num, Close num, RowsClose])))
         \<or> (res \<noteq> None \<and> list_all (\<lambda>ev. event_handle ev = None) evs)"
proof -
  define b where "b = Format W lo (Input_TimeFormat (Input cfg))"
  define e where "e = Format W (AddDate hi 0 0 (- 1)) (Input_TimeFormat (Input cfg))"
  obtain evs0 r0 where c: "CloneTemplate W cfg num b e = (evs0, r0)"
    by (cases "CloneTemplate W cfg num b e") auto
  from CloneTemplate_events [OF c] show ?thesis
  proof (elim disjE exE conjE)
    fix err assume "r0 = Inl err" "list_all (\<lambda>ev. event_handle ev = None) evs0"
    with assms c show ?thesis
      by (auto simp: Process_partition_def Let_def b_def e_def)
  next
    fix dst assume r0: "r0 = Inr num"
      and evs0: "evs0 = [ReadFile (Template_Path (Template cfg)), WriteFile dst, OpenFile num dst, Close num]"
    obtain evs2 r2 where w: "write_rows W cfg num (Template_Row (Template cfg))
        (the (Queryx W db (resolve_range (Input_Query (Input cfg)) b e))) = (evs2, r2)"
      by force
    obtain evs3 r3 where v: "write_variables cfg num b e (Output_Variables (Output cfg)) = (evs3, r3)"
      by force
    obtain evs5 r5 where t: "\<And>r. r2 = Inr r \<Longrightarrow> write_totals W cfg num r (Output_Totalizations (Output cfg)) = (evs5, r5)"
      by (cases r2) force+
    have h2: "on_handle num evs2" using on_handle_write_rows [OF w] .
    have h3: "on_handle num evs3" using on_handle_write_variables [OF v] .
    have h5: "\<And>r. r2 = Inr r \<Longrightarrow> on_handle num evs5" using on_handle_write_totals [OF t] .
    show ?thesis
      using assms c r0 evs0 w v t h2 h3 h5
      by (auto simp: Process_partition_def Let_def b_def e_def on_handle_def
          split: option.splits sum.splits if_splits)
  qed
qed

lemma after_close_append:
  "after_close closed (xs @ ys)
     = (after_close closed xs \<and> after_close (closed \<union> {h. Close h \<in> set xs}) ys)"
proof (induction xs arbitrary: closed)
  case Nil
  then show ?case by simp
next
  case (Cons ev xs)
  have ins: "\<And>h. insert h closed \<union> {h'. Close h' \<in> set xs}
       = closed \<union> {h'. Close h' \<in> set (Close h # xs)}"
    by auto
  show ?case
  proof (cases ev)
    case (Close h)
    then show ?thesis using Cons.IH [of "insert h closed"] ins [of h] by simp
  qed (use Cons.IH [of closed] in auto)
qed

lemma after_close_Process_partition:
  "after_close closed (fst (Process_partition W cfg db num lo hi))"
proof -
  obtain evs res where p: "Process_partition W cfg db num lo hi = (evs, res)"
    by force
  from Process_partition_events [OF p] have "after_close closed evs"
  proof (elim disjE exE conjE)
    fix dst ops
    assume "evs = [ReadFile (Template_Path (Template cfg)), WriteFile dst, OpenFile num dst,
        Close num] @ ops" and "on_handle num ops"
    then show ?thesis
      using after_close_on_handle [of num "insert num closed" ops] by simp
  next
    assume "list_all (\<lambda>ev. event_handle ev = None) evs"
    then show ?thesis
      using after_close_no_handle [of evs closed "[]"] by simp
  qed
  with p show ?thesis by simp
qed

lemma after_close_Process_from:
  "after_close closed (fst (Process_from W cfg db n_total p partitions))"
proof (induction W cfg db n_total p partitions arbitrary: closed rule: Process_from.induct)
  case (1 W cfg db n_total p lo hi rest)
  obtain evs res where b: "Process_partition W cfg db (n_total + p) lo hi = (evs, res)"
    by force
  have a: "after_close closed evs"
    using after_close_Process_partition [of closed W cfg db "n_total + p" lo hi] b by simp
  show ?case
  proof (cases res)
    case None
    obtain evs' out where r: "Process_from W cfg db n_total (p + 1) (hi # rest) = (evs', out)"
      by force
    have "after_close (closed \<union> {h. Close h \<in> set evs}) evs'"
      using "1.IH" [OF b [symmetric] None, of "closed \<union> {h. Close h \<in> set evs}"] r by simp
    with a b None r show ?thesis
      by (simp add: after_close_append)
  next
    case (Some out)
    with a b show ?thesis by simp
  qed
qed simp_all

lemma write_totals_in_range:
  "list_all (\<lambda>t. ExcelCols_at (Totalization_Col t - 1) \<noteq> None) ts \<Longrightarrow>
   write_totals W cfg tpl r ts
     = (concat (map (total_calls W tpl (Template_Sheet (Template cfg)) r) ts), None)"
  by (induction ts) (auto simp: total_calls_def Let_def)

lemma write_rows_three:
  assumes "ExcelCols_at (Template_Col (Template cfg) - 1) = Some col"
    and "\<not> SetSheetRow_fails W tpl (Template_Sheet (Template cfg)) (col @ Sprint r) r1"
    and "\<not> SetSheetRow_fails W tpl (Template_Sheet (Template cfg)) (col @ Sprint (r + 1)) r2"
    and "\<not> SetSheetRow_fails W tpl (Template_Sheet (Template cfg)) (col @ Sprint (r + 1 + 1)) r3"
  shows "write_rows W cfg tpl r [Some r1, Some r2, Some r3]
     = ([SetSheetRow tpl (Template_Sheet (Template cfg)) (col @ Sprint r) r1,
         SetSheetRow tpl (Template_Sheet (Template cfg)) (col @ Sprint (r + 1)) r2,
         SetSheetRow tpl (Template_Sheet (Template cfg)) (col @ Sprint (r + 1 + 1)) r3],
        Inr (r + 1 + 1 + 1))"
  using assms by (simp add: Let_def)

lemma Sprint_10_13:
  "Sprint 10 = ''10''" "Sprint 11 = ''11''" "Sprint 12 = ''12''" "Sprint 13 = ''13''"
  by (simp_all add: Sprint_def digits_of.simps)

subsection \<open>ReplaceAll\<close>

lemma sublist_append_disjoint:
  assumes "sublist tok (new @ r)" "set tok \<inter> set new = {}" "tok \<noteq> []"
  shows "sublist tok r"
proof -
  from assms(1) consider "sublist tok new" | "sublist tok r"
    | xs1 xs2 where "tok = xs1 @ xs2" "suffix xs1 new" "prefix xs2 r"
    unfolding sublist_append by blast
  then show ?thesis
  proof cases
    case 1
    then have "set tok \<subseteq> set new" by (rule set_mono_sublist)
    with assms(2,3) show ?thesis by (cases tok) auto
  next
    case 2
    then show ?thesis .
  next
    case 3
    from 3(2) have "set xs1 \<subseteq> set new" by (rule set_mono_suffix)
    with assms(2) 3(1) have "xs1 = []" by (cases xs1) auto
    with 3 show ?thesis by simp
  qed
qed

lemma ReplaceAll_prefix:
  "old \<noteq> [] \<Longrightarrow> new \<noteq> [] \<Longrightarrow> set tok \<inter> set new = {} \<Longrightarrow>
   prefix tok (ReplaceAll s old new) \<Longrightarrow> prefix tok s"
proof (induction s old new arbitrary: tok rule: ReplaceAll.induct)
  case (1 old new)
  then show ?case by simp
next
  case (2 c s old new)
  show ?case
  proof (cases "prefix old (c # s)")
    case True
    with 2 have p: "prefix tok (new @ ReplaceAll (drop (length old) (c # s)) old new)"
      by simp
    have "tok = []"
    proof (rule ccontr)
      assume "tok \<noteq> []"
      then obtain a t where tok: "tok = a # t" by (cases tok) auto
      from "2.prems"(2) obtain b n where new: "new = b # n" by (cases new) auto
      from p tok new have "a = b" by simp
      with tok new "2.prems"(3) show False by auto
    qed
    then show ?thesis by simp
  next
    case False
    with 2 have p: "prefix tok (c # ReplaceAll s old new)" by simp
    show ?thesis
    proof (cases tok)
      case Nil
      then show ?thesis by simp
    next
      case (Cons a t)
      with p have a: "a = c" "prefix t (ReplaceAll s old new)" by simp_all
      have "set t \<inter> set new = {}" using "2.prems"(3) Cons by auto
      from "2.IH"(3) [OF "2.prems"(1) False "2.prems"(1,2) this a(2)] a(1) Cons
      show ?thesis by simp
    qed
  qed
qed

lemma ReplaceAll_sublist:
  "old \<noteq> [] \<Longrightarrow> new \<noteq> [] \<Longrightarrow> set tok \<inter> set new = {} \<Longrightarrow>
   sublist tok (ReplaceAll s old new) \<Longrightarrow> sublist tok s"
proof (induction s old new rule: ReplaceAll.induct)
  case (1 old new)
  then show ?case by simp
next
  case (2 c s old new)
  show ?case
  proof (cases "tok = []")
    case True
    then show ?thesis by simp
  next
    case tok: False
    show ?thesis
    proof (cases "prefix old (c # s)")
      case True
      with 2 have "sublist tok (new @ ReplaceAll (drop (length old) (c # s)) old new)"
        by simp
      then have "sublist tok (ReplaceAll (drop (length old) (c # s)) old new)"
        using "2.prems"(3) tok by (rule sublist_append_disjoint)
      from "2.IH"(2) [OF "2.prems"(1) True "2.prems"(1,2,3) this]
      have "sublist tok (drop (length old) (c # s))" .
      then show ?thesis
        using sublist_drop [of "length old" "c # s"] by (rule sublist_order.order.trans)
    next
      case False
      with 2 have "sublist tok (c # ReplaceAll s old new)" by simp
      then consider "prefix tok (c # ReplaceAll s old new)" | "sublist tok (ReplaceAll s old new)"
        unfolding sublist_Cons_right by blast
      then show ?thesis
      proof cases
        case 1
        then have "prefix tok (ReplaceAll (c # s) old new)"
          using False "2.prems"(1) by simp
        then have "prefix tok (c # s)"
          using "2.prems" by (intro ReplaceAll_prefix [of old new tok "c # s"])
        then show ?thesis by (rule prefix_imp_sublist)
      next
        case 2
        from "2.IH"(3) [OF "2.prems"(1) False "2.prems"(1,2,3) 2]
        show ?thesis by (simp add: sublist_Cons_right)
      qed
    qed
  qed
qed

lemma ReplaceAll_removes:
  assumes "old \<noteq> []" "new \<noteq> []" "set old \<inter> set new = {}"
  shows "\<not> sublist old (ReplaceAll s old new)"
  using assms
proof (induction s old new rule: ReplaceAll.induct)
  case (1 old new)
  then show ?case by simp
next
  case (2 c s old new)
  show ?case
  proof (cases "prefix old (c # s)")
    case True
    show ?thesis
    proof
      assume "sublist old (ReplaceAll (c # s) old new)"
      with True "2.prems" have "sublist old (new @ ReplaceAll (drop (length old) (c # s)) old new)"
        by simp
      then have "sublist old (ReplaceAll (drop (length old) (c # s)) old new)"
        using "2.prems"(3,1) by (rule sublist_append_disjoint)
      with "2.IH"(2) [OF "2.prems"(1) True "2.prems"] show False by simp
    qed
  next
    case False
    show ?thesis
    proof
      assume a: "sublist old (ReplaceAll (c # s) old new)"
      then have "sublist old (c # ReplaceAll s old new)"
        using False "2.prems"(1) by simp
      then consider "prefix old (c # ReplaceAll s old new)" | "sublist old (ReplaceAll s old new)"
        unfolding sublist_Cons_right by blast
      then show False
      proof cases
        case 1
        then have "prefix old (ReplaceAll (c # s) old new)"
          using False "2.prems"(1) by simp
        then have "prefix old (c # s)"
          using "2.prems" by (intro ReplaceAll_prefix [of old new old "c # s"])
        with False show False by simp
      next
        case 2
        with "2.IH"(3) [OF "2.prems"(1) False "2.prems"] show False by simp
      qed
    qed
  qed
qed

lemma ReplaceAll_absent:
  "old \<noteq> [] \<Longrightarrow> \<not> sublist old s \<Longrightarrow> ReplaceAll s old new = s"
proof (induction s old new rule: ReplaceAll.induct)
  case (1 old new)
  then show ?case by simp
next
  case (2 c s old new)
  from "2.prems"(2) have np: "\<not> prefix old (c # s)" and ns: "\<not> sublist old s"
    by (auto simp: sublist_Cons_right)
  from "2.IH"(3) [OF "2.prems"(1) np "2.prems"(1) ns] np "2.prems"(1)
  show ?case by simp
qed

lemma digits_of_chars: "digits_of n \<noteq> [] \<and> set (digits_of n) \<subseteq> set ''0123456789''"
proof (induction n rule: digits_of.induct)
  case (1 n)
  have d: "\<And>k. k < 10 \<Longrightarrow> ''0123456789'' ! k \<in> set ''0123456789''"
    by (rule nth_mem) simp
  show ?case
  proof (cases "n < 10")
    case True
    then show ?thesis
      using d [of n] by (subst digits_of.simps, subst digits_of.simps) simp
  next
    case False
    have "n mod 10 < 10" by simp
    with d [of "n mod 10"] "1.IH" [OF False] False show ?thesis
      by (subst digits_of.simps, subst digits_of.simps) simp
  qed
qed

lemma Sprint_chars: "Sprint i \<noteq> []" "set (Sprint i) \<subseteq> set ''-0123456789''"
proof -
  have s: "set ''-0123456789'' = insert CHR ''-'' (set ''0123456789'')"
    by simp
  show "Sprint i \<noteq> []"
    using digits_of_chars [of "nat (sint i)"] by (simp add: Sprint_def)
  show "set (Sprint i) \<subseteq> set ''-0123456789''"
  proof (cases "sint i < 0")
    case True
    then have "set (Sprint i) = insert CHR ''-'' (set (digits_of (nat (- sint i))))"
      by (simp add: Sprint_def)
    then show ?thesis
      unfolding s using digits_of_chars [of "nat (- sint i)"] by blast
  next
    case False
    then have "set (Sprint i) = set (digits_of (nat (sint i)))"
      by (simp add: Sprint_def)
    then show ?thesis
      unfolding s using digits_of_chars [of "nat (sint i)"] by blast
  qed
qed

lemma disjoint_from_superset: "set s \<subseteq> B \<Longrightarrow> A \<inter> B = {} \<Longrightarrow> A \<inter> set s = {}"
  by blast

lemma Sprint_disjoint:
  "set ''{num}'' \<inter> set (Sprint i) = {}" "set ''{part.beg}'' \<inter> set (Sprint i) = {}"
  "set ''{part.end}'' \<inter> set (Sprint i) = {}" "set ''{rows.last}'' \<inter> set (Sprint i) = {}"
  by (rule disjoint_from_superset [OF Sprint_chars(2)], simp)+

lemma ReplaceAll_skip:
  "CHR ''{'' \<notin> set w \<Longrightarrow> ReplaceAll (w @ rest) (CHR ''{'' # old) new
     = w @ ReplaceAll rest (CHR ''{'' # old) new"
  by (induction w) auto

lemma ReplaceAll_hit:
  "old \<noteq> [] \<Longrightarrow> ReplaceAll (old @ rest) old new = new @ ReplaceAll rest old new"
  by (cases old) simp_all

lemma ReplaceAll_other:
  "ReplaceAll (''{part.beg}'' @ rest) ''{num}'' new = ''{part.beg}'' @ ReplaceAll rest ''{num}'' new"
  "ReplaceAll (''{part.end}'' @ rest) ''{num}'' new = ''{part.end}'' @ ReplaceAll rest ''{num}'' new"
  "ReplaceAll (''{rows.last}'' @ rest) ''{num}'' new = ''{rows.last}'' @ ReplaceAll rest ''{num}'' new"
  "ReplaceAll (''{num}'' @ rest) ''{part.beg}'' new = ''{num}'' @ ReplaceAll rest ''{part.beg}'' new"
  "ReplaceAll (''{part.end}'' @ rest) ''{part.beg}'' new = ''{part.end}'' @ ReplaceAll rest ''{part.beg}'' new"
  "ReplaceAll (''{rows.last}'' @ rest) ''{part.beg}'' new = ''{rows.last}'' @ ReplaceAll rest ''{part.beg}'' new"
  "ReplaceAll (''{num}'' @ rest) ''{part.end}'' new = ''{num}'' @ ReplaceAll rest ''{part.end}'' new"
  "ReplaceAll (''{part.beg}'' @ rest) ''{part.end}'' new = ''{part.beg}'' @ ReplaceAll rest ''{part.end}'' new"
  "ReplaceAll (''{rows.last}'' @ rest) ''{part.end}'' new = ''{rows.last}'' @ ReplaceAll rest ''{part.end}'' new"
  "ReplaceAll (''{num}'' @ rest) ''{rows.last}'' new = ''{num}'' @ ReplaceAll rest ''{rows.last}'' new"
  "ReplaceAll (''{part.beg}'' @ rest) ''{rows.last}'' new = ''{part.beg}'' @ ReplaceAll rest ''{rows.last}'' new"
  "ReplaceAll (''{part.end}'' @ rest) ''{rows.last}'' new = ''{part.end}'' @ ReplaceAll rest ''{rows.last}'' new"
  by simp_all

lemma resolve_name_pieces:
  assumes "list_all brace_free ps" "CHR ''{'' \<notin> set num" "CHR ''{'' \<notin> set begin"
    "CHR ''{'' \<notin> set end"
  shows "ReplaceAll (ReplaceAll (ReplaceAll (template_text ps) ''{num}'' num) ''{part.beg}'' begin)
           ''{part.end}'' end = concat (map (fill_name num begin end) ps)"
  using assms(1)
proof (induction ps)
  case Nil
  then show ?case by (simp add: template_text_def)
next
  case (Cons p ps)
  then have IH: "ReplaceAll (ReplaceAll (ReplaceAll (template_text ps) ''{num}'' num)
      ''{part.beg}'' begin) ''{part.end}'' end = concat (map (fill_name num begin end) ps)"
    by simp
  have t: "template_text (p # ps) = piece_text p @ template_text ps"
    by (simp add: template_text_def)
  show ?case
  proof (cases p)
    case (Lit s)
    with Cons.prems have "CHR ''{'' \<notin> set s" by simp
    then show ?thesis
      unfolding t using IH Lit by (simp only: piece_text.simps ReplaceAll_skip simp_thms) simp
  next
    case TokNum
    show ?thesis
      unfolding t using IH assms(2) TokNum
      by (simp only: piece_text.simps ReplaceAll_hit ReplaceAll_skip simp_thms list.simps) simp
  next
    case TokPartBeg
    show ?thesis
      unfolding t using IH assms(3) TokPartBeg
      by (simp only: piece_text.simps ReplaceAll_other ReplaceAll_hit ReplaceAll_skip simp_thms list.simps) simp
  next
    case TokPartEnd
    show ?thesis
      unfolding t using IH TokPartEnd
      by (simp only: piece_text.simps ReplaceAll_other ReplaceAll_hit simp_thms list.simps) simp
  next
    case TokRowsLast
    show ?thesis
      unfolding t using IH TokRowsLast
      by (simp only: piece_text.simps ReplaceAll_other) simp
  qed
qed

lemma resolve_range_pieces:
  assumes "list_all brace_free ps" "CHR ''{'' \<notin> set begin" "CHR ''{'' \<notin> set end"
  shows "ReplaceAll (ReplaceAll (template_text ps) ''{part.beg}'' begin) ''{part.end}'' end
           = concat (map (fill_range begin end) ps)"
  using assms(1)
proof (induction ps)
  case Nil
  then show ?case by (simp add: template_text_def)
next
  case (Cons p ps)
  then have IH: "ReplaceAll (ReplaceAll (template_text ps) ''{part.beg}'' begin) ''{part.end}'' end
      = concat (map (fill_range begin end) ps)"
    by simp
  have t: "template_text (p # ps) = piece_text p @ template_text ps"
    by (simp add: template_text_def)
  show ?case
  proof (cases p)
    case (Lit s)
    with Cons.prems have "CHR ''{'' \<notin> set s" by simp
    then show ?thesis
      unfolding t using IH Lit by (simp only: piece_text.simps ReplaceAll_skip simp_thms) simp
  next
    case TokNum
    show ?thesis
      unfolding t using IH TokNum
      by (simp only: piece_text.simps ReplaceAll_other) simp
  next
    case TokPartBeg
    show ?thesis
      unfolding t using IH assms(2) TokPartBeg
      by (simp only: piece_text.simps ReplaceAll_hit ReplaceAll_skip simp_thms list.simps) simp
  next
    case TokPartEnd
    show ?thesis
      unfolding t using IH TokPartEnd
      by (simp only: piece_text.simps ReplaceAll_other ReplaceAll_hit simp_thms list.simps) simp
  next
    case TokRowsLast
    show ?thesis
      unfolding t using IH TokRowsLast
      by (simp only: piece_text.simps ReplaceAll_other) simp
  qed
qed

lemma resolve_formula_pieces:
  assumes "list_all brace_free ps"
  shows "ReplaceAll (template_text ps) ''{rows.last}'' lastRow
           = concat (map (fill_formula lastRow) ps)"
  using assms(1)
proof (induction ps)
  case Nil
  then show ?case by (simp add: template_text_def)
next
  case (Cons p ps)
  then have IH: "ReplaceAll (template_text ps) ''{rows.last}'' lastRow
      = concat (map (fill_formula lastRow) ps)"
    by simp
  have t: "template_text (p # ps) = piece_text p @ template_text ps"
    by (simp add: template_text_def)
  show ?case
  proof (cases p)
    case (Lit s)
    with Cons.prems have "CHR ''{'' \<notin> set s" by simp
    then show ?thesis
      unfolding t using IH Lit by (simp only: piece_text.simps ReplaceAll_skip simp_thms) simp
  next
    case TokRowsLast
    show ?thesis
      unfolding t using IH TokRowsLast
      by (simp only: piece_text.simps ReplaceAll_hit simp_thms list.simps) simp
  next
    case TokNum
    show ?thesis
      unfolding t using IH TokNum by (simp only: piece_text.simps ReplaceAll_other) simp
  next
    case TokPartBeg
    show ?thesis
      unfolding t using IH TokPartBeg by (simp only: piece_text.simps ReplaceAll_other) simp
  next
    case TokPartEnd
    show ?thesis
      unfolding t using IH TokPartEnd by (simp only: piece_text.simps ReplaceAll_other) simp
  qed
qed

lemma Sprint_brace_free: "CHR ''{'' \<notin> set (Sprint i)"
  using Sprint_chars(2) [of i] by auto

section \<open>The claims\<close>

text \<open>Unfolding every definition of the time model evaluates it on concrete dates.\<close>

lemmas eval_time = Parse_def parse_fields_def isDigit_def digitVal_def in_range_def daysIn_def
      Date_def norm_day.simps isLeap_def granularity_of_def boundaries.simps Before_def
      abs_seconds_def abs_of_def abs_days_def daysSinceEpoch_def daysBefore_def AddDate_def
      prev_month_def next_month_def

subsection \<open>C1: the boundaries of a partition\<close>

text \<open>
  Claim C1 says that the last boundary equals the normalised end (23:59:59 of the end
  date). It does not: the loop appends the value of \<open>cur\<close> at which it stopped. For the
  daily partition from 2022-01-01 to 2022-01-02 the last boundary is 2022-01-03 at 00:00:00.
\<close>

theorem daily_last_boundary_past_end:
  "map_sum id last (CreatePartitions \<lparr>Partition_Type = ''daily'',
       Partition_Begin = ''2022-01-01'', Partition_End = ''2022-01-02''\<rparr>)
     \<noteq> Parse (''2022-01-02'' @ ''T23:59:59'')"
  by (simp add: CreatePartitions_def eval_time)

text \<open>
  Claim C1, amended: when both dates parse, the partition type is supported and the end is
  not before the begin, \<open>CreatePartitions\<close> returns at least two boundaries; the first is
  the normalised begin, the boundaries are strictly increasing, each one is the \<open>adder\<close>
  of the one before it, every boundary but the last lies before the normalised end, and
  the last one lies strictly after the normalised end (it is not clamped to it).
\<close>

theorem CreatePartitions_boundaries:
  assumes pb: "Parse (Partition_Begin part @ ''T00:00:00'') = Inr begin"
    and pe: "Parse (Partition_End part @ ''T23:59:59'') = Inr end"
    and g: "granularity_of (Partition_Type part) = Some g"
    and le: "\<not> Before end begin"
  shows "\<exists>bs. CreatePartitions part = Inr bs \<and> 2 \<le> length bs \<and> hd bs = begin
     \<and> sorted_wrt Before bs \<and> tl bs = map (adder g) (butlast bs)
     \<and> list_all (\<lambda>t. Before t end) (butlast bs) \<and> Before end (last bs)"
proof -
  let ?bs = "boundaries_from g end begin"
  have cp: "CreatePartitions part = Inr ?bs"
    using pb pe g by (simp add: CreatePartitions_def boundaries_acc)
  obtain kb where kb: "abs_seconds begin = kb * 86400"
    using Parse_begin_clock [OF pb] by blast
  obtain ke where ke: "abs_seconds end = ke * 86400 + 86399"
    using Parse_end_clock [OF pe] by blast
  note props = boundaries_from_props [of g "end" "begin"]
  have "abs_seconds begin \<noteq> abs_seconds end"
    unfolding kb ke by (rule day_start_not_day_end)
  with le have lt: "Before begin end" by (simp add: Before_def)
  then have "?bs = begin # boundaries_from g end (adder g begin)"
    by (subst boundaries_from.simps) simp
  moreover have "boundaries_from g end (adder g begin) \<noteq> []"
    using boundaries_from_props [of g "end" "adder g begin"] by simp
  ultimately have len: "2 \<le> length ?bs"
    by (cases "boundaries_from g end (adder g begin)") simp_all
  have "last ?bs \<in> set ?bs" using props by simp
  with boundaries_from_whole_days [of "begin" g "end"]
  obtain k where "abs_seconds (last ?bs) = abs_seconds begin + k * 86400"
    by (auto simp: list_all_iff)
  then have "abs_seconds (last ?bs) = (kb + k) * 86400"
    unfolding kb by (simp add: algebra_simps)
  then have "abs_seconds (last ?bs) \<noteq> abs_seconds end"
    unfolding ke using day_start_not_day_end [of "kb + k" ke] by simp
  with props have "Before end (last ?bs)" by (simp add: Before_def)
  with cp len props show ?thesis by blast
qed

text \<open>
  The theorem at the yearly partition from 2020-02-29 to 2022-12-31.
\<close>

theorem CreatePartitions_boundaries_witness:
  "CreatePartitions \<lparr>Partition_Type = ''yearly'', Partition_Begin = ''2020-02-29'',
       Partition_End = ''2022-12-31''\<rparr>
     = Inr [\<lparr>year = 2020, month = 2, day = 29, hour = 0, minute = 0, second = 0\<rparr>,
            \<lparr>year = 2021, month = 3, day = 1, hour = 0, minute = 0, second = 0\<rparr>,
            \<lparr>year = 2022, month = 3, day = 1, hour = 0, minute = 0, second = 0\<rparr>,
            \<lparr>year = 2023, month = 3, day = 1, hour = 0, minute = 0, second = 0\<rparr>]
   \<and> (\<exists>bs. CreatePartitions \<lparr>Partition_Type = ''yearly'', Partition_Begin = ''2020-02-29'',
         Partition_End = ''2022-12-31''\<rparr> = Inr bs
     \<and> 2 \<le> length bs
     \<and> hd bs = \<lparr>year = 2020, month = 2, day = 29, hour = 0, minute = 0, second = 0\<rparr>
     \<and> sorted_wrt Before bs \<and> tl bs = map (adder Year) (butlast bs)
     \<and> list_all (\<lambda>t. Before t
          \<lparr>year = 2022, month = 12, day = 31, hour = 23, minute = 59, second = 59\<rparr>) (butlast bs)
     \<and> Before \<lparr>year = 2022, month = 12, day = 31, hour = 23, minute = 59, second = 59\<rparr> (last bs))"
proof -
  let ?p = "\<lparr>Partition_Type = ''yearly'', Partition_Begin = ''2020-02-29'',
         Partition_End = ''2022-12-31''\<rparr>"
  let ?b = "\<lparr>year = 2020, month = 2, day = 29, hour = 0, minute = 0, second = 0\<rparr>"
  let ?e = "\<lparr>year = 2022, month = 12, day = 31, hour = 23, minute = 59, second = 59\<rparr>"
  have 1: "Parse (Partition_Begin ?p @ ''T00:00:00'') = Inr ?b"
    by (simp add: eval_time)
  have 2: "Parse (Partition_End ?p @ ''T23:59:59'') = Inr ?e"
    by (simp add: eval_time)
  have 3: "granularity_of (Partition_Type ?p) = Some Year"
    by (simp add: granularity_of_def)
  have 4: "\<not> Before ?e ?b"
    by (simp add: eval_time)
  have 5: "CreatePartitions ?p
     = Inr [?b,
            \<lparr>year = 2021, month = 3, day = 1, hour = 0, minute = 0, second = 0\<rparr>,
            \<lparr>year = 2022, month = 3, day = 1, hour = 0, minute = 0, second = 0\<rparr>,
            \<lparr>year = 2023, month = 3, day = 1, hour = 0, minute = 0, second = 0\<rparr>]"
    by (simp add: CreatePartitions_def eval_time)
  from 5 CreatePartitions_boundaries [OF 1 2 3 4] show ?thesis
    by (rule conjI)
qed

subsection \<open>C2: the monthly boundaries of the first quarter of 2022\<close>

text \<open>
  Claim C2 says that the monthly partition from 2022-01-01 to 2022-03-31 yields the dates
  2022-01-01, 2022-02-01, 2022-03-01 and 2022-03-31. It does not: the last boundary is
  2022-04-01.
\<close>

theorem monthly_2022_q1_not_clamped:
  "map_sum id (map Time_Date)
     (CreatePartitions \<lparr>Partition_Type = ''monthly'', Partition_Begin = ''2022-01-01'',
        Partition_End = ''2022-03-31''\<rparr>)
   \<noteq> Inr [(2022, 1, 1), (2022, 2, 1), (2022, 3, 1), (2022, 3, 31)]"
  by (simp add: CreatePartitions_def Time_Date_def eval_time)

text \<open>
  Claim C2, amended: for the monthly partition from 2022-01-01 to 2022-03-31,
  \<open>CreatePartitions\<close> returns exactly the four boundaries 2022-01-01, 2022-02-01,
  2022-03-01 and 2022-04-01, each at 00:00:00, in that order.
\<close>

theorem monthly_2022_q1_boundaries:
  "CreatePartitions \<lparr>Partition_Type = ''monthly'', Partition_Begin = ''2022-01-01'',
      Partition_End = ''2022-03-31''\<rparr>
   = Inr [\<lparr>year = 2022, month = 1, day = 1, hour = 0, minute = 0, second = 0\<rparr>,
          \<lparr>year = 2022, month = 2, day = 1, hour = 0, minute = 0, second = 0\<rparr>,
          \<lparr>year = 2022, month = 3, day = 1, hour = 0, minute = 0, second = 0\<rparr>,
          \<lparr>year = 2022, month = 4, day = 1, hour = 0, minute = 0, second = 0\<rparr>]"
  by (simp add: CreatePartitions_def eval_time)

subsection \<open>C3: three rows from row 10\<close>

text \<open>
  Claim C3: with start row 10 and a query that returns three rows, when no call fails and
  the columns are in range, \<open>Process\<close> writes the rows at rows 10, 11 and 12; with at
  least one totalization it inserts one row at 13 after the variables and before the
  totals, and writes each formula, \<open>{rows.last}\<close> replaced by 12 everywhere, at row 13
  of its column; without totalizations it inserts no row.
\<close>

theorem three_rows_from_row_10:
  fixes W :: world and cfg :: Config
  defines "sheet \<equiv> Template_Sheet (Template cfg)"
    and "tots \<equiv> Output_Totalizations (Output cfg)"
  assumes row: "Template_Row (Template cfg) = 10"
    and clone: "CloneTemplate W cfg n_total
          (Format W lo (Input_TimeFormat (Input cfg)))
          (Format W (AddDate hi 0 0 (- 1)) (Input_TimeFormat (Input cfg))) = (evs0, Inr tpl)"
    and query: "Queryx W db (resolve_range (Input_Query (Input cfg))
          (Format W lo (Input_TimeFormat (Input cfg)))
          (Format W (AddDate hi 0 0 (- 1)) (Input_TimeFormat (Input cfg))))
        = Some [Some r1, Some r2, Some r3]"
    and col: "ExcelCols_at (Template_Col (Template cfg) - 1) = Some col"
    and ok1: "\<not> SetSheetRow_fails W tpl sheet (col @ ''10'') r1"
    and ok2: "\<not> SetSheetRow_fails W tpl sheet (col @ ''11'') r2"
    and ok3: "\<not> SetSheetRow_fails W tpl sheet (col @ ''12'') r3"
    and vars: "write_variables cfg tpl
          (Format W lo (Input_TimeFormat (Input cfg)))
          (Format W (AddDate hi 0 0 (- 1)) (Input_TimeFormat (Input cfg)))
          (Output_Variables (Output cfg)) = (evs3, None)"
    and ins: "\<not> InsertRow_fails W tpl sheet 13"
    and cols: "list_all (\<lambda>t. ExcelCols_at (Totalization_Col t - 1) \<noteq> None) tots"
  shows "Process W cfg db n_total [lo, hi]
     = (evs0
        @ [Query db (resolve_range (Input_Query (Input cfg))
             (Format W lo (Input_TimeFormat (Input cfg)))
             (Format W (AddDate hi 0 0 (- 1)) (Input_TimeFormat (Input cfg)))),
           Printf (Format W lo (Input_TimeFormat (Input cfg)))
             (Format W (AddDate hi 0 0 (- 1)) (Input_TimeFormat (Input cfg))),
           SetSheetRow tpl sheet (col @ ''10'') r1,
           SetSheetRow tpl sheet (col @ ''11'') r2,
           SetSheetRow tpl sheet (col @ ''12'') r3]
        @ evs3
        @ (if tots = [] then [] else [InsertRow tpl sheet 13])
        @ concat (map (\<lambda>t. [GetCellStyle tpl sheet (the (ExcelCols_at (Totalization_Col t - 1)) @ ''12''),
             SetCellFormula tpl sheet (the (ExcelCols_at (Totalization_Col t - 1)) @ ''13'')
               (ReplaceAll (Totalization_Formula t) ''{rows.last}'' ''12''),
             SetCellStyle tpl sheet (the (ExcelCols_at (Totalization_Col t - 1)) @ ''13'')
               (the (ExcelCols_at (Totalization_Col t - 1)) @ ''13'')
               (CellStyle W tpl sheet (the (ExcelCols_at (Totalization_Col t - 1)) @ ''12''))]) tots)
        @ [Save tpl, Close tpl, RowsClose],
        Returned None)
   \<and> list_all (\<lambda>t. \<not> sublist ''{rows.last}''
         (ReplaceAll (Totalization_Formula t) ''{rows.last}'' ''12'')) tots"
proof -
  have rows: "write_rows W cfg tpl 10 [Some r1, Some r2, Some r3]
     = ([SetSheetRow tpl sheet (col @ ''10'') r1, SetSheetRow tpl sheet (col @ ''11'') r2,
         SetSheetRow tpl sheet (col @ ''12'') r3], Inr 13)"
    using write_rows_three [of cfg col W tpl 10 r1 r2 r3] col ok1 ok2 ok3
    by (simp add: sheet_def Sprint_10_13)
  have calls: "total_calls W tpl sheet 13 t
      = [GetCellStyle tpl sheet (the (ExcelCols_at (Totalization_Col t - 1)) @ ''12''),
         SetCellFormula tpl sheet (the (ExcelCols_at (Totalization_Col t - 1)) @ ''13'')
           (ReplaceAll (Totalization_Formula t) ''{rows.last}'' ''12''),
         SetCellStyle tpl sheet (the (ExcelCols_at (Totalization_Col t - 1)) @ ''13'')
           (the (ExcelCols_at (Totalization_Col t - 1)) @ ''13'')
           (CellStyle W tpl sheet (the (ExcelCols_at (Totalization_Col t - 1)) @ ''12''))]"
    if "t \<in> set tots" for t
    using that cols
    by (auto simp: total_calls_def resolve_formula_def Sprint_10_13 list_all_iff)
  have totals: "write_totals W cfg tpl 13 tots
      = (concat (map (total_calls W tpl sheet 13) tots), None)"
    using write_totals_in_range [OF cols [unfolded tots_def]] by (simp add: sheet_def tots_def)
  have map_eq: "map (total_calls W tpl sheet 13) tots
      = map (\<lambda>t. [GetCellStyle tpl sheet (the (ExcelCols_at (Totalization_Col t - 1)) @ ''12''),
             SetCellFormula tpl sheet (the (ExcelCols_at (Totalization_Col t - 1)) @ ''13'')
               (ReplaceAll (Totalization_Formula t) ''{rows.last}'' ''12''),
             SetCellStyle tpl sheet (the (ExcelCols_at (Totalization_Col t - 1)) @ ''13'')
               (the (ExcelCols_at (Totalization_Col t - 1)) @ ''13'')
               (CellStyle W tpl sheet (the (ExcelCols_at (Totalization_Col t - 1)) @ ''12''))]) tots"
    by (rule map_cong [OF refl]) (rule calls)
  have part: "Process_partition W cfg db n_total lo hi
     = (evs0
        @ [Query db (resolve_range (Input_Query (Input cfg))
             (Format W lo (Input_TimeFormat (Input cfg)))
             (Format W (AddDate hi 0 0 (- 1)) (Input_TimeFormat (Input cfg)))),
           Printf (Format W lo (Input_TimeFormat (Input cfg)))
             (Format W (AddDate hi 0 0 (- 1)) (Input_TimeFormat (Input cfg))),
           SetSheetRow tpl sheet (col @ ''10'') r1,
           SetSheetRow tpl sheet (col @ ''11'') r2,
           SetSheetRow tpl sheet (col @ ''12'') r3]
        @ evs3
        @ (if tots = [] then [] else [InsertRow tpl sheet 13])
        @ concat (map (total_calls W tpl sheet 13) tots)
        @ [Save tpl, Close tpl, RowsClose], None)"
    using clone query rows vars ins totals row
    by (simp add: Process_partition_def Let_def sheet_def [symmetric] tots_def [symmetric])
  have "\<not> sublist ''{rows.last}'' (ReplaceAll f ''{rows.last}'' ''12'')" for f
    by (rule ReplaceAll_removes) simp_all
  then have "list_all (\<lambda>t. \<not> sublist ''{rows.last}''
         (ReplaceAll (Totalization_Formula t) ''{rows.last}'' ''12'')) tots"
    by (simp add: list_all_iff)
  with part show ?thesis
    unfolding map_eq by (simp add: Process_def)
qed

text \<open>
  The theorem at the shipped configuration, for January 2022 and three result rows.
\<close>

theorem three_rows_from_row_10_witness:
  "Process (example_world example_rows False) example_config ''mysqlite3.db'' 1
     [\<lparr>year = 2022, month = 1, day = 1, hour = 0, minute = 0, second = 0\<rparr>,
      \<lparr>year = 2022, month = 2, day = 1, hour = 0, minute = 0, second = 0\<rparr>]
   = ([ReadFile ''template.xlsx'',
       WriteFile ''My plan - 2022-01-01-2022-01-31.xlsx'',
       OpenFile 1 ''My plan - 2022-01-01-2022-01-31.xlsx'', Close 1,
       Query ''mysqlite3.db'' ''select id, date, value, value * 2 as double from mytable where date between '2022-01-01' and '2022-01-31' order by id asc;'',
       Printf ''2022-01-01'' ''2022-01-31'',
       SetSheetRow 1 ''example'' ''B10'' [CellInt 1, CellText ''2022-01-03'', CellInt 10, CellInt 20],
       SetSheetRow 1 ''example'' ''B11'' [CellInt 2, CellText ''2022-01-17'', CellInt 15, CellInt 30],
       SetSheetRow 1 ''example'' ''B12'' [CellInt 3, CellText ''2022-01-25'', CellInt 5, CellInt 10],
       SetCellStr 1 ''example'' ''B6'' ''partition 2022-01-01 to 2022-01-31'',
       InsertRow 1 ''example'' 13,
       GetCellStyle 1 ''example'' ''D12'',
       SetCellFormula 1 ''example'' ''D13'' ''=SUM(D10:D12)'',
       SetCellStyle 1 ''example'' ''D13'' ''D13'' 0,
       GetCellStyle 1 ''example'' ''E12'',
       SetCellFormula 1 ''example'' ''E13'' ''=SUM(E10:E12)'',
       SetCellStyle 1 ''example'' ''E13'' ''E13'' 0,
       Save 1, Close 1, RowsClose],
      Returned None)"
proof -
  let ?W = "example_world example_rows False"
  let ?lo = "\<lparr>year = 2022, month = 1, day = 1, hour = 0, minute = 0, second = 0\<rparr>"
  let ?hi = "\<lparr>year = 2022, month = 2, day = 1, hour = 0, minute = 0, second = 0\<rparr>"
  let ?b = "Format ?W ?lo (Input_TimeFormat (Input example_config))"
  let ?e = "Format ?W (AddDate ?hi 0 0 (- 1)) (Input_TimeFormat (Input example_config))"
  have b: "?b = ''2022-01-01''" and e: "?e = ''2022-01-31''"
    by code_simp+
  have row: "Template_Row (Template example_config) = 10"
    by (simp add: example_config_def)
  have clone: "CloneTemplate ?W example_config 1 ?b ?e
      = ([ReadFile ''template.xlsx'', WriteFile ''My plan - 2022-01-01-2022-01-31.xlsx'',
          OpenFile 1 ''My plan - 2022-01-01-2022-01-31.xlsx'', Close 1], Inr 1)"
    unfolding b e by code_simp
  have query: "Queryx ?W ''mysqlite3.db'' (resolve_range (Input_Query (Input example_config)) ?b ?e)
      = Some [Some [CellInt 1, CellText ''2022-01-03'', CellInt 10, CellInt 20],
              Some [CellInt 2, CellText ''2022-01-17'', CellInt 15, CellInt 30],
              Some [CellInt 3, CellText ''2022-01-25'', CellInt 5, CellInt 10]]"
    by (simp add: example_world_def example_rows_def)
  have col: "ExcelCols_at (Template_Col (Template example_config) - 1) = Some ''B''"
    by code_simp
  have ok: "\<not> SetSheetRow_fails ?W 1 (Template_Sheet (Template example_config)) axis cols"
    for axis cols
    by (simp add: example_world_def)
  have vars: "write_variables example_config 1 ?b ?e (Output_Variables (Output example_config))
      = ([SetCellStr 1 ''example'' ''B6'' ''partition 2022-01-01 to 2022-01-31''], None)"
    unfolding b e by code_simp
  have ins: "\<not> InsertRow_fails ?W 1 (Template_Sheet (Template example_config)) 13"
    by (simp add: example_world_def)
  have cols: "list_all (\<lambda>t. ExcelCols_at (Totalization_Col t - 1) \<noteq> None)
      (Output_Totalizations (Output example_config))"
    by code_simp
  have q: "resolve_range (Input_Query (Input example_config)) ''2022-01-01'' ''2022-01-31''
      = ''select id, date, value, value * 2 as double from mytable where date between '2022-01-01' and '2022-01-31' order by id asc;''"
    by code_simp
  have tots: "Output_Totalizations (Output example_config)
      = [\<lparr>Totalization_Col = 4, Totalization_Formula = ''=SUM(D10:D{rows.last})''\<rparr>,
         \<lparr>Totalization_Col = 5, Totalization_Formula = ''=SUM(E10:E{rows.last})''\<rparr>]"
    and sheet: "Template_Sheet (Template example_config) = ''example''"
    by (simp_all add: example_config_def)
  have cs: "ExcelCols_at 3 = Some ''D''" "ExcelCols_at 4 = Some ''E''"
    by code_simp+
  have style: "CellStyle ?W tpl sh ax = 0" for tpl sh ax
    by (simp add: example_world_def)
  from three_rows_from_row_10 [OF row clone query col ok ok ok vars ins cols]
  show ?thesis
    unfolding b e q tots sheet by (simp add: cs style)
qed

subsection \<open>C4: the tokens each kind of template supports\<close>

text \<open>
  Claim C4 says that \<open>{num}\<close> is substituted in the query text and in variable
  values. It is not: only the output name has \<open>{num}\<close> replaced.
\<close>

theorem query_keeps_num_token:
  "resolve_range ''select {num} from t where d >= {part.beg}'' ''2022-01-01'' ''2022-01-31''
     = ''select {num} from t where d >= 2022-01-01''"
  by (simp add: resolve_range_def)

text \<open>
  Claim C4, amended: in a template made of brace-free text and tokens, with values free of
  opening braces, the output name has every \<open>{num}\<close>, \<open>{part.beg}\<close> and
  \<open>{part.end}\<close> replaced by its value; the query text and a variable's value have every
  \<open>{part.beg}\<close> and \<open>{part.end}\<close> replaced and keep \<open>{num}\<close> as it is; a
  formula has every \<open>{rows.last}\<close> replaced. Tokens a kind does not support stay.
\<close>

theorem placeholders_per_template_kind:
  assumes "list_all brace_free ps"
    and "CHR ''{'' \<notin> set begin" and "CHR ''{'' \<notin> set end"
  shows "resolve_name (template_text ps) num begin end
           = concat (map (fill_name (Sprint num) begin end) ps)
       \<and> resolve_range (template_text ps) begin end = concat (map (fill_range begin end) ps)
       \<and> resolve_formula (template_text ps) (Sprint r) = concat (map (fill_formula (Sprint r)) ps)"
  unfolding resolve_name_def resolve_range_def resolve_formula_def
  using resolve_name_pieces [OF assms(1) Sprint_brace_free assms(2,3)]
    resolve_range_pieces [OF assms] resolve_formula_pieces [OF assms(1)]
  by simp

text \<open>
  The theorem at the name template \<open>My plan {num} - {part.beg}-{part.end}\<close> and at a
  formula with two \<open>{rows.last}\<close>.
\<close>

theorem placeholders_per_template_kind_witness:
  "resolve_name ''My plan {num} - {part.beg}-{part.end}'' 7 ''2022-01-01'' ''2022-01-31''
     = ''My plan 7 - 2022-01-01-2022-01-31''
   \<and> resolve_range ''My plan {num} - {part.beg}-{part.end}'' ''2022-01-01'' ''2022-01-31''
     = ''My plan {num} - 2022-01-01-2022-01-31''
   \<and> resolve_formula ''=SUM(D10:D{rows.last})-{rows.last}'' (Sprint 12) = ''=SUM(D10:D12)-12''"
proof -
  let ?ps = "[Lit ''My plan '', TokNum, Lit '' - '', TokPartBeg, Lit ''-'', TokPartEnd]"
  let ?fs = "[Lit ''=SUM(D10:D'', TokRowsLast, Lit '')-'', TokRowsLast]"
  have 1: "list_all brace_free ?ps" and 2: "list_all brace_free ?fs" by simp_all
  have 3: "CHR ''{'' \<notin> set ''2022-01-01''" and 4: "CHR ''{'' \<notin> set ''2022-01-31''" by simp_all
  have 5: "Sprint 7 = ''7''" and 6: "Sprint 12 = ''12''"
    by (simp_all add: Sprint_def digits_of.simps)
  show ?thesis
    using placeholders_per_template_kind [OF 1 3 4, of 7 12]
      placeholders_per_template_kind [OF 2 3 4, of 7 12]
    by (simp add: template_text_def 5 6)
qed

subsection \<open>C5: resolving twice\<close>

text \<open>
  Claim C5 says that resolving twice equals resolving once whenever no value contains a
  token. It does not: with empty values (a configuration without time format) the template
  \<open>{part.{part.beg}beg}\<close> resolves to \<open>{part.beg}\<close>, and that resolves to the
  empty string.
\<close>

theorem resolve_twice_differs:
  "resolve_range (resolve_range ''{part.{part.beg}beg}'' '''' '''') '''' ''''
     \<noteq> resolve_range ''{part.{part.beg}beg}'' '''' ''''"
  by (simp add: resolve_range_def)

text \<open>
  Claim C5, amended: for every template, when the values of \<open>{part.beg}\<close> and
  \<open>{part.end}\<close> are not empty and share no character with the tokens of the chain,
  resolving the resolved string again returns it unchanged, for the output name, for the
  query and variable values, and for a formula.
\<close>

theorem resolve_idempotent:
  assumes "begin \<noteq> []" and "end \<noteq> []"
    and b: "set begin \<inter> set ''{num}{part.beg}{part.end}'' = {}"
    and e: "set end \<inter> set ''{num}{part.beg}{part.end}'' = {}"
  shows "resolve_name (resolve_name name num begin end) num begin end
           = resolve_name name num begin end
       \<and> resolve_range (resolve_range s begin end) begin end = resolve_range s begin end
       \<and> resolve_formula (resolve_formula f (Sprint r)) (Sprint r) = resolve_formula f (Sprint r)"
proof -
  have bn: "set ''{num}'' \<inter> set begin = {}" and bb: "set ''{part.beg}'' \<inter> set begin = {}"
    and be: "set ''{part.end}'' \<inter> set begin = {}"
    using b by auto
  have en: "set ''{num}'' \<inter> set end = {}" and eb: "set ''{part.beg}'' \<inter> set end = {}"
    and ee: "set ''{part.end}'' \<inter> set end = {}"
    using e by auto
  have range: "\<not> sublist ''{part.beg}'' (resolve_range t begin end)
      \<and> \<not> sublist ''{part.end}'' (resolve_range t begin end)
      \<and> (\<not> sublist ''{num}'' t \<longrightarrow> \<not> sublist ''{num}'' (resolve_range t begin end))" for t
  proof -
    have 1: "\<not> sublist ''{part.beg}'' (ReplaceAll t ''{part.beg}'' begin)"
      using assms(1) bb by (intro ReplaceAll_removes) simp_all
    have 2: "\<not> sublist ''{part.beg}'' (resolve_range t begin end)"
      unfolding resolve_range_def
      using 1 ReplaceAll_sublist [of "''{part.end}''" "end" "''{part.beg}''"] assms(2) eb
      by blast
    have 3: "\<not> sublist ''{part.end}'' (resolve_range t begin end)"
      unfolding resolve_range_def using assms(2) ee by (intro ReplaceAll_removes) simp_all
    have 4: "\<not> sublist ''{num}'' (resolve_range t begin end)" if "\<not> sublist ''{num}'' t"
      unfolding resolve_range_def
      using that ReplaceAll_sublist [of "''{part.end}''" "end" "''{num}''"]
        ReplaceAll_sublist [of "''{part.beg}''" "begin" "''{num}''"] assms(1,2) bn en
      by blast
    from 2 3 4 show ?thesis by blast
  qed
  have fix_range: "resolve_range t begin end = t"
    if "\<not> sublist ''{part.beg}'' t" "\<not> sublist ''{part.end}'' t" for t
    unfolding resolve_range_def using that by (simp add: ReplaceAll_absent)
  have rr: "resolve_range (resolve_range t begin end) begin end = resolve_range t begin end" for t
    using range [of t] by (intro fix_range) simp_all
  have name: "resolve_name t num begin end
      = resolve_range (ReplaceAll t ''{num}'' (Sprint num)) begin end" for t
    by (simp add: resolve_name_def resolve_range_def)
  have n1: "\<not> sublist ''{num}'' (ReplaceAll name ''{num}'' (Sprint num))"
    using Sprint_chars(1) Sprint_disjoint(1) by (intro ReplaceAll_removes) simp_all
  have n2: "\<not> sublist ''{num}'' (resolve_name name num begin end)"
    unfolding name using range n1 by blast
  have "resolve_name (resolve_name name num begin end) num begin end
      = resolve_range (resolve_name name num begin end) begin end"
    unfolding name [of "resolve_name name num begin end"] using n2
    by (simp add: ReplaceAll_absent)
  also have "\<dots> = resolve_name name num begin end"
    unfolding name by (rule rr)
  finally have A: "resolve_name (resolve_name name num begin end) num begin end
      = resolve_name name num begin end" .
  have "\<not> sublist ''{rows.last}'' (resolve_formula f (Sprint r))"
    unfolding resolve_formula_def
    using Sprint_chars(1) Sprint_disjoint(4) by (intro ReplaceAll_removes) simp_all
  then have C: "resolve_formula (resolve_formula f (Sprint r)) (Sprint r)
      = resolve_formula f (Sprint r)"
    by (simp add: resolve_formula_def [of "resolve_formula f (Sprint r)"] ReplaceAll_absent)
  from A rr [of s] C show ?thesis by blast
qed

text \<open>
  The theorem at the dates 2022-03-01 and 2022-03-31.
\<close>

theorem resolve_idempotent_witness:
  "resolve_name (resolve_name ''My plan {num} - {part.beg}-{part.end}'' 3 ''2022-03-01''
       ''2022-03-31'') 3 ''2022-03-01'' ''2022-03-31''
     = ''My plan 3 - 2022-03-01-2022-03-31''
   \<and> resolve_range (resolve_range ''between {part.beg} and {part.end}'' ''2022-03-01''
       ''2022-03-31'') ''2022-03-01'' ''2022-03-31''
     = ''between 2022-03-01 and 2022-03-31''
   \<and> resolve_formula (resolve_formula ''=SUM(D10:D{rows.last})'' (Sprint 12)) (Sprint 12)
     = ''=SUM(D10:D12)''"
proof -
  have 1: "''2022-03-01'' \<noteq> []" and 2: "''2022-03-31'' \<noteq> []" by simp_all
  have 3: "set ''2022-03-01'' \<inter> set ''{num}{part.beg}{part.end}'' = {}" by simp
  have 4: "set ''2022-03-31'' \<inter> set ''{num}{part.beg}{part.end}'' = {}" by simp
  have 5: "resolve_name ''My plan {num} - {part.beg}-{part.end}'' 3 ''2022-03-01'' ''2022-03-31''
     = ''My plan 3 - 2022-03-01-2022-03-31''"
    by (simp add: resolve_name_def Sprint_def digits_of.simps)
  have 6: "resolve_range ''between {part.beg} and {part.end}'' ''2022-03-01'' ''2022-03-31''
     = ''between 2022-03-01 and 2022-03-31''"
    by (simp add: resolve_range_def)
  have 7: "resolve_formula ''=SUM(D10:D{rows.last})'' (Sprint 12) = ''=SUM(D10:D12)''"
    by (simp add: resolve_formula_def Sprint_def digits_of.simps)
  show ?thesis
    using resolve_idempotent [OF 1 2 3 4, of "''My plan {num} - {part.beg}-{part.end}''" 3
        "''between {part.beg} and {part.end}''" "''=SUM(D10:D{rows.last})''" 12]
    unfolding 5 6 7 .
qed

subsection \<open>C6: an unsupported partition type\<close>

text \<open>
  Claim C6: when both dates parse and the partition type is none of the six recognised
  strings, \<open>CreatePartitions\<close> fails with the error \<open>unsupported partition type\<close>, and
  \<open>main\<close> ends at that source with a fatal error after opening the database only:
  \<open>Process\<close> is not entered and no file is written.
\<close>

theorem unsupported_partition_type:
  assumes "Parse (Partition_Begin part @ ''T00:00:00'') = Inr begin"
    and "Parse (Partition_End part @ ''T23:59:59'') = Inr end"
    and "Partition_Type part \<notin> {''day'', ''daily'', ''month'', ''monthly'', ''year'', ''yearly''}"
  shows "CreatePartitions part = Inl UnsupportedPartitionType
     \<and> run_sources W cfg n_total (\<lparr>Source_Name = db, Source_Partition = part\<rparr> # sources)
         = ([OpenDb db],
            Fatal (if OpenDb_fails W db then OpenDbError else UnsupportedPartitionType))"
proof -
  have "granularity_of (Partition_Type part) = None"
    using assms(3) by (simp add: granularity_of_def)
  with assms(1,2) have "CreatePartitions part = Inl UnsupportedPartitionType"
    by (simp add: CreatePartitions_def)
  then show ?thesis by simp
qed

text \<open>
  The theorem at the partition type \<open>weekly\<close>.
\<close>

theorem unsupported_partition_type_witness:
  "CreatePartitions \<lparr>Partition_Type = ''weekly'', Partition_Begin = ''2022-01-01'',
       Partition_End = ''2022-12-31''\<rparr> = Inl UnsupportedPartitionType
   \<and> run_sources (example_world example_rows False) example_config 1
       (\<lparr>Source_Name = ''mysqlite3.db'',
          Source_Partition = \<lparr>Partition_Type = ''weekly'', Partition_Begin = ''2022-01-01'',
            Partition_End = ''2022-12-31''\<rparr>\<rparr> # [])
     = ([OpenDb ''mysqlite3.db''], Fatal UnsupportedPartitionType)"
proof -
  let ?p = "\<lparr>Partition_Type = ''weekly'', Partition_Begin = ''2022-01-01'',
       Partition_End = ''2022-12-31''\<rparr>"
  have 1: "Parse (Partition_Begin ?p @ ''T00:00:00'')
      = Inr \<lparr>year = 2022, month = 1, day = 1, hour = 0, minute = 0, second = 0\<rparr>"
    by (simp add: eval_time)
  have 2: "Parse (Partition_End ?p @ ''T23:59:59'')
      = Inr \<lparr>year = 2022, month = 12, day = 31, hour = 23, minute = 59, second = 59\<rparr>"
    by (simp add: eval_time)
  have 3: "Partition_Type ?p \<notin> {''day'', ''daily'', ''month'', ''monthly'', ''year'', ''yearly''}"
    by simp
  have 4: "\<not> OpenDb_fails (example_world example_rows False) ''mysqlite3.db''"
    by (simp add: example_world_def)
  show ?thesis
    using unsupported_partition_type [OF 1 2 3, of "example_world example_rows False"
        example_config 1 "''mysqlite3.db''" "[]"] 4
    by simp
qed

subsection \<open>C7: a failed save\<close>

text \<open>
  Claim C7 says that a failed save ends \<open>Process\<close> with that error. The code
  discards the result of \<open>tpl.Save()\<close>: in a world where every save fails,
  \<open>Process\<close> goes on to the second partition and returns \<open>nil\<close>.
\<close>

theorem Process_ignores_failed_Save:
  "Save_fails (example_world [] True) 1
   \<and> Process (example_world [] True) plain_config ''mysqlite3.db'' 1
       [\<lparr>year = 2022, month = 1, day = 1, hour = 0, minute = 0, second = 0\<rparr>,
        \<lparr>year = 2022, month = 2, day = 1, hour = 0, minute = 0, second = 0\<rparr>,
        \<lparr>year = 2022, month = 3, day = 1, hour = 0, minute = 0, second = 0\<rparr>]
     = ([ReadFile ''template.xlsx'', WriteFile ''part 1.xlsx'', OpenFile 1 ''part 1.xlsx'',
         Close 1,
         Query ''mysqlite3.db'' ''select id, date, value, value * 2 as double from mytable where date between '2022-01-01' and '2022-01-31' order by id asc;'',
         Printf ''2022-01-01'' ''2022-01-31'', Save 1, Close 1, RowsClose,
         ReadFile ''template.xlsx'', WriteFile ''part 2.xlsx'', OpenFile 2 ''part 2.xlsx'',
         Close 2,
         Query ''mysqlite3.db'' ''select id, date, value, value * 2 as double from mytable where date between '2022-02-01' and '2022-02-28' order by id asc;'',
         Printf ''2022-02-01'' ''2022-02-28'', Save 2, Close 2, RowsClose],
        Returned None)"
  by code_simp

subsection \<open>C8: an end before the begin\<close>

text \<open>
  Claim C8: when both dates parse, the partition type is supported and the end lies before
  the begin, \<open>CreatePartitions\<close> returns without an error and its result is the one
  boundary \<open>begin\<close>.
\<close>

theorem CreatePartitions_end_before_begin:
  assumes "Parse (Partition_Begin part @ ''T00:00:00'') = Inr begin"
    and "Parse (Partition_End part @ ''T23:59:59'') = Inr end"
    and "granularity_of (Partition_Type part) = Some g"
    and "Before end begin"
  shows "CreatePartitions part = Inr [begin]"
proof -
  have "\<not> Before begin end"
    using assms(4) by (simp add: Before_def)
  then have "boundaries g end begin [] = [begin]"
    by (subst boundaries.simps) simp
  with assms(1-3) show ?thesis
    by (simp add: CreatePartitions_def)
qed

text \<open>
  The theorem at the daily partition from 2022-01-02 to 2022-01-01.
\<close>

theorem CreatePartitions_end_before_begin_witness:
  "Before \<lparr>year = 2022, month = 1, day = 1, hour = 23, minute = 59, second = 59\<rparr>
      \<lparr>year = 2022, month = 1, day = 2, hour = 0, minute = 0, second = 0\<rparr>
   \<and> CreatePartitions \<lparr>Partition_Type = ''daily'', Partition_Begin = ''2022-01-02'',
        Partition_End = ''2022-01-01''\<rparr>
     = Inr [\<lparr>year = 2022, month = 1, day = 2, hour = 0, minute = 0, second = 0\<rparr>]"
proof -
  let ?p = "\<lparr>Partition_Type = ''daily'', Partition_Begin = ''2022-01-02'',
        Partition_End = ''2022-01-01''\<rparr>"
  let ?b = "\<lparr>year = 2022, month = 1, day = 2, hour = 0, minute = 0, second = 0\<rparr>"
  let ?e = "\<lparr>year = 2022, month = 1, day = 1, hour = 23, minute = 59, second = 59\<rparr>"
  have 1: "Parse (Partition_Begin ?p @ ''T00:00:00'') = Inr ?b"
    by (simp add: eval_time)
  have 2: "Parse (Partition_End ?p @ ''T23:59:59'') = Inr ?e"
    by (simp add: eval_time)
  have 3: "granularity_of (Partition_Type ?p) = Some Day"
    by (simp add: granularity_of_def)
  have 4: "Before ?e ?b"
    by (simp add: eval_time)
  show ?thesis
    using CreatePartitions_end_before_begin [OF 1 2 3 4] 4 by simp
qed

subsection \<open>C9: the column table\<close>

text \<open>
  Claim C9: the lookup \<open>ExcelCols[col - 1]\<close> is out of range exactly when \<open>col\<close>
  is outside 1..52; in range, the columns 1 to 26 give the letters A to Z and the columns
  27 to 52 give AA to AZ; and with a column outside 1..52 each of the three loops panics at
  its first cell address.
\<close>

theorem ExcelCols_lookup_range:
  "(ExcelCols_at (col - 1) = None \<longleftrightarrow> \<not> (1 \<le> sint col \<and> sint col \<le> 52))
   \<and> (1 \<le> sint c1 \<and> sint c1 \<le> 26 \<longrightarrow>
        ExcelCols_at (c1 - 1) = Some [''ABCDEFGHIJKLMNOPQRSTUVWXYZ'' ! nat (sint c1 - 1)])
   \<and> (27 \<le> sint c2 \<and> sint c2 \<le> 52 \<longrightarrow>
        ExcelCols_at (c2 - 1) = Some [CHR ''A'', ''ABCDEFGHIJKLMNOPQRSTUVWXYZ'' ! nat (sint c2 - 27)])
   \<and> (\<not> (1 \<le> sint (Template_Col (Template cfg)) \<and> sint (Template_Col (Template cfg)) \<le> 52) \<longrightarrow>
        write_rows W cfg tpl r (Some cols # rows) = ([], Inl Panic))
   \<and> (\<not> (1 \<le> sint (Variable_Col v) \<and> sint (Variable_Col v) \<le> 52) \<longrightarrow>
        write_variables cfg tpl b e (v # vs) = ([], Some Panic))
   \<and> (\<not> (1 \<le> sint (Totalization_Col t) \<and> sint (Totalization_Col t) \<le> 52) \<longrightarrow>
        write_totals W cfg tpl r (t # ts) = ([], Some Panic))"
proof (intro conjI impI)
  show "ExcelCols_at (col - 1) = None \<longleftrightarrow> \<not> (1 \<le> sint col \<and> sint col \<le> 52)"
    by (rule ExcelCols_at_None)
next
  assume "1 \<le> sint c1 \<and> sint c1 \<le> 26"
  then show "ExcelCols_at (c1 - 1) = Some [''ABCDEFGHIJKLMNOPQRSTUVWXYZ'' ! nat (sint c1 - 1)]"
    by (simp add: ExcelCols_at_single)
next
  assume "27 \<le> sint c2 \<and> sint c2 \<le> 52"
  then show "ExcelCols_at (c2 - 1)
      = Some [CHR ''A'', ''ABCDEFGHIJKLMNOPQRSTUVWXYZ'' ! nat (sint c2 - 27)]"
    by (simp add: ExcelCols_at_double)
next
  assume "\<not> (1 \<le> sint (Template_Col (Template cfg)) \<and> sint (Template_Col (Template cfg)) \<le> 52)"
  then have "ExcelCols_at (Template_Col (Template cfg) - 1) = None"
    by (simp add: ExcelCols_at_None)
  then show "write_rows W cfg tpl r (Some cols # rows) = ([], Inl Panic)"
    by simp
next
  assume "\<not> (1 \<le> sint (Variable_Col v) \<and> sint (Variable_Col v) \<le> 52)"
  then have "ExcelCols_at (Variable_Col v - 1) = None"
    by (simp add: ExcelCols_at_None)
  then show "write_variables cfg tpl b e (v # vs) = ([], Some Panic)"
    by simp
next
  assume "\<not> (1 \<le> sint (Totalization_Col t) \<and> sint (Totalization_Col t) \<le> 52)"
  then have "ExcelCols_at (Totalization_Col t - 1) = None"
    by (simp add: ExcelCols_at_None)
  then show "write_totals W cfg tpl r (t # ts) = ([], Some Panic)"
    by simp
qed

text \<open>
  The theorem at the columns 53, 2, 28, 0, 53 and -1.
\<close>

theorem ExcelCols_lookup_range_witness:
  "ExcelCols_at (53 - 1) = None
   \<and> ExcelCols_at (2 - 1) = Some ''B''
   \<and> ExcelCols_at (28 - 1) = Some ''AB''
   \<and> write_rows (example_world example_rows False)
        (example_config\<lparr>Template := \<lparr>Template_Path = ''template.xlsx'',
           Template_Sheet = ''example'', Template_Row = 10, Template_Col = 0\<rparr>\<rparr>)
        1 10 (Some [CellInt 1] # []) = ([], Inl Panic)
   \<and> write_variables
        (example_config\<lparr>Template := \<lparr>Template_Path = ''template.xlsx'',
           Template_Sheet = ''example'', Template_Row = 10, Template_Col = 0\<rparr>\<rparr>)
        1 ''2022-01-01'' ''2022-01-31''
        (\<lparr>Variable_Row = 6, Variable_Col = 53, Variable_Value = ''x''\<rparr> # []) = ([], Some Panic)
   \<and> write_totals (example_world example_rows False)
        (example_config\<lparr>Template := \<lparr>Template_Path = ''template.xlsx'',
           Template_Sheet = ''example'', Template_Row = 10, Template_Col = 0\<rparr>\<rparr>) 1 10
        (\<lparr>Totalization_Col = - 1, Totalization_Formula = ''=SUM(D10:D{rows.last})''\<rparr> # [])
       = ([], Some Panic)"
proof -
  let ?cfg = "example_config\<lparr>Template := \<lparr>Template_Path = ''template.xlsx'',
           Template_Sheet = ''example'', Template_Row = 10, Template_Col = 0\<rparr>\<rparr>"
  let ?v = "\<lparr>Variable_Row = 6, Variable_Col = 53, Variable_Value = ''x''\<rparr>"
  let ?t = "\<lparr>Totalization_Col = - 1, Totalization_Formula = ''=SUM(D10:D{rows.last})''\<rparr>"
  have 1: "\<not> (1 \<le> sint (53 :: go_int) \<and> sint (53 :: go_int) \<le> 52)" by simp
  have 2: "1 \<le> sint (2 :: go_int) \<and> sint (2 :: go_int) \<le> 26" by simp
  have 3: "27 \<le> sint (28 :: go_int) \<and> sint (28 :: go_int) \<le> 52" by simp
  have 4: "\<not> (1 \<le> sint (Template_Col (Template ?cfg)) \<and> sint (Template_Col (Template ?cfg)) \<le> 52)"
    by simp
  have 5: "\<not> (1 \<le> sint (Variable_Col ?v) \<and> sint (Variable_Col ?v) \<le> 52)" by simp
  have 6: "\<not> (1 \<le> sint (Totalization_Col ?t) \<and> sint (Totalization_Col ?t) \<le> 52)" by simp
  show ?thesis
    using ExcelCols_lookup_range [where col = 53 and ?c1.0 = 2 and ?c2.0 = 28 and cfg = ?cfg
        and W = "example_world example_rows False" and tpl = 1 and r = 10
        and cols = "[CellInt 1]" and rows = "[]" and v = ?v and b = "''2022-01-01''"
        and e = "''2022-01-31''" and vs = "[]" and t = ?t and ts = "[]"]
      1 2 3 4 5 6
    by simp
qed

subsection \<open>C10: the workbook is closed before it is used\<close>

text \<open>
  Claim C10: \<open>LoadTemplate\<close> closes the handle before it returns it; in every trace
  of \<open>Process\<close> each operation on a workbook other than its first \<open>Close\<close> acts on
  a handle that is already closed; and an iteration that runs to its end has its cell
  writes, its \<open>Save\<close> and its second \<open>Close\<close> after the first \<open>Close\<close>.
\<close>

theorem workbook_closed_before_use:
  "(LoadTemplate W h path = (evs, Inr tpl) \<longrightarrow> tpl = h \<and> evs = [OpenFile h path, Close h])
   \<and> after_close {} (fst (Process W cfg db n_total partitions))
   \<and> (Process_partition W cfg db num lo hi = (pevs, None) \<longrightarrow>
        (\<exists>dst ops. pevs = [ReadFile (Template_Path (Template cfg)), WriteFile dst,
             OpenFile num dst, Close num] @ ops @ [Save num, Close num, RowsClose]
           \<and> on_handle num ops))"
proof (intro conjI impI)
  assume "LoadTemplate W h path = (evs, Inr tpl)"
  then show "tpl = h" "evs = [OpenFile h path, Close h]"
    by (auto simp: LoadTemplate_def split: if_splits)
next
  show "after_close {} (fst (Process W cfg db n_total partitions))"
    by (simp add: Process_def after_close_Process_from)
next
  assume "Process_partition W cfg db num lo hi = (pevs, None)"
  from Process_partition_events [OF this]
  show "\<exists>dst ops. pevs = [ReadFile (Template_Path (Template cfg)), WriteFile dst,
             OpenFile num dst, Close num] @ ops @ [Save num, Close num, RowsClose]
           \<and> on_handle num ops"
    by auto
qed

text \<open>
  The theorem at a partition without rows, variables and totalizations.
\<close>

theorem workbook_closed_before_use_witness:
  "LoadTemplate (example_world [] False) 1 ''part 1.xlsx''
     = ([OpenFile 1 ''part 1.xlsx'', Close 1], Inr 1)
   \<and> after_close {} (fst (Process (example_world [] False) plain_config ''mysqlite3.db'' 1
       [\<lparr>year = 2022, month = 1, day = 1, hour = 0, minute = 0, second = 0\<rparr>,
        \<lparr>year = 2022, month = 2, day = 1, hour = 0, minute = 0, second = 0\<rparr>]))
   \<and> (\<exists>dst ops.
        [ReadFile ''template.xlsx'', WriteFile ''part 1.xlsx'', OpenFile 1 ''part 1.xlsx'',
         Close 1,
         Query ''mysqlite3.db'' ''select id, date, value, value * 2 as double from mytable where date between '2022-01-01' and '2022-01-31' order by id asc;'',
         Printf ''2022-01-01'' ''2022-01-31'', Save 1, Close 1, RowsClose]
        = [ReadFile ''template.xlsx'', WriteFile dst, OpenFile 1 dst, Close 1] @ ops
            @ [Save 1, Close 1, RowsClose]
        \<and> on_handle 1 ops)"
proof -
  let ?W = "example_world [] False"
  let ?lo = "\<lparr>year = 2022, month = 1, day = 1, hour = 0, minute = 0, second = 0\<rparr>"
  let ?hi = "\<lparr>year = 2022, month = 2, day = 1, hour = 0, minute = 0, second = 0\<rparr>"
  let ?pevs = "[ReadFile ''template.xlsx'', WriteFile ''part 1.xlsx'', OpenFile 1 ''part 1.xlsx'',
         Close 1,
         Query ''mysqlite3.db'' ''select id, date, value, value * 2 as double from mytable where date between '2022-01-01' and '2022-01-31' order by id asc;'',
         Printf ''2022-01-01'' ''2022-01-31'', Save 1, Close 1, RowsClose]"
  have 1: "LoadTemplate ?W 1 ''part 1.xlsx'' = ([OpenFile 1 ''part 1.xlsx'', Close 1], Inr 1)"
    by (simp add: LoadTemplate_def example_world_def)
  have 2: "Process_partition ?W plain_config ''mysqlite3.db'' 1 ?lo ?hi = (?pevs, None)"
    by code_simp
  have 3: "Template_Path (Template plain_config) = ''template.xlsx''"
    by (simp add: plain_config_def example_config_def)
  show ?thesis
    using workbook_closed_before_use [of ?W 1 "''part 1.xlsx''" "[OpenFile 1 ''part 1.xlsx'', Close 1]"
        1 plain_config "''mysqlite3.db''" 1 "[?lo, ?hi]" 1 ?lo ?hi ?pevs] 1 2
    unfolding 3 by simp
qed

end
